theory Spec2Isabelle
  imports Complex_Main "HOL-Library.Sublist"
begin

section \<open>JavaScript values\<close>

text \<open>
  The option bundles handed to the API client are plain JavaScript objects, so a field
  may hold any value or be absent. Numbers are idealised as reals; \<open>NaN\<close> is kept
  apart because it is falsy. A field that is absent reads as \<open>Undefined\<close>.
\<close>

datatype jsval = Undefined | Null | Bool bool | Num real | NaN | Str string

text \<open>ToBoolean: the falsy values are undefined, null, false, 0, NaN and the empty string.\<close>

fun truthy :: "jsval \<Rightarrow> bool" where
  "truthy Undefined = False"
| "truthy Null = False"
| "truthy (Bool b) = b"
| "truthy (Num x) = (x \<noteq> 0)"
| "truthy NaN = False"
| "truthy (Str s) = (s \<noteq> [])"

text \<open>The operator \<open>a || b\<close>: the left operand when it is truthy, the right one otherwise.\<close>

definition js_or :: "jsval \<Rightarrow> jsval \<Rightarrow> jsval" where
  "js_or a b = (if truthy a then a else b)"

section \<open>The API client (web/js/api-client.js)\<close>

record blob =
  blob_type :: string
  blob_size :: nat

record options =
  referenceSaHz :: jsval
  algorithm :: jsval
  script :: jsval
  toleranceCents :: jsval
  includeContour :: jsval

text \<open>
  The form data of one POST to \<open>/analyze\<close>: the file part with the file name given to
  \<open>append\<close> (none for \<open>analyzeFile\<close>, which appends the file as it is) and the five
  fields, each the value handed to \<open>FormData.append\<close>.
\<close>

record request =
  file_part :: blob
  file_name :: "string option"
  reference_sa_hz :: jsval
  algorithm_field :: jsval
  script_field :: jsval
  tolerance_cents :: jsval
  include_contour :: jsval

definition ext_of :: "blob \<Rightarrow> string" where
  "ext_of b =
     (if sublist ''webm'' (blob_type b) then ''.webm''
      else if sublist ''ogg'' (blob_type b) then ''.ogg''
      else if sublist ''mp4'' (blob_type b) then ''.m4a''
      else ''.webm'')"

definition analyze :: "blob \<Rightarrow> options \<Rightarrow> request" where
  "analyze b opts =
     \<lparr> file_part = b,
       file_name = Some (''recording'' @ ext_of b),
       reference_sa_hz = js_or (referenceSaHz opts) (Num 261.63),
       algorithm_field = js_or (algorithm opts) (Str ''pyin''),
       script_field = js_or (script opts) (Str ''iast''),
       tolerance_cents = js_or (toleranceCents opts) (Num 40),
       include_contour = js_or (includeContour opts) (Bool False) \<rparr>"

definition analyzeFile :: "blob \<Rightarrow> options \<Rightarrow> request" where
  "analyzeFile f opts =
     \<lparr> file_part = f,
       file_name = None,
       reference_sa_hz = js_or (referenceSaHz opts) (Num 261.63),
       algorithm_field = js_or (algorithm opts) (Str ''pyin''),
       script_field = js_or (script opts) (Str ''iast''),
       tolerance_cents = js_or (toleranceCents opts) (Num 40),
       include_contour = js_or (includeContour opts) (Bool False) \<rparr>"

text \<open>The five form fields of a request, in the order they are appended.\<close>

definition form_fields :: "request \<Rightarrow> jsval list" where
  "form_fields r = [reference_sa_hz r, algorithm_field r, script_field r,
                    tolerance_cents r, include_contour r]"

definition option_values :: "options \<Rightarrow> jsval list" where
  "option_values opts = [referenceSaHz opts, algorithm opts, script opts,
                         toleranceCents opts, includeContour opts]"

definition defaults :: "jsval list" where
  "defaults = [Num 261.63, Str ''pyin'', Str ''iast'', Num 40, Bool False]"


section \<open>The session controller\<close>

text \<open>
  The controller with the tabbed results and the contour view; web/js/ui.js is an older
  duplicate of it without that view, which differs here in \<open>getOptions\<close> only.
\<close>

datatype session_state = Idle | Recording | Processing | Results

text \<open>The current values of the configuration inputs.\<close>

record controls =
  saPreset_value :: string
  saCustom_value :: string
  algorithm_value :: string
  script_value :: string

text \<open>
  What the handlers change: the state last given to \<open>setState\<close>, the text and the
  error class of the status line, and the requests handed to \<open>fetch\<close> so far, oldest
  first.
\<close>

record controller =
  ui_state :: session_state
  recordingStatus_text :: string
  recordingStatus_error :: bool
  requests :: "request list"

text \<open>
  \<open>getOptions\<close> of the session controller. \<open>parseFloat\<close> is the runtime's: it is a
  parameter, a function from the input's text to a number or NaN.
\<close>

definition getOptions :: "(string \<Rightarrow> jsval) \<Rightarrow> controls \<Rightarrow> options" where
  "getOptions parseFloat c =
     (let saHz = parseFloat (saPreset_value c);
          saHz = (if saPreset_value c = ''custom''
                  then js_or (parseFloat (saCustom_value c)) (Num 261.63) else saHz)
      in \<lparr> referenceSaHz = saHz,
           algorithm = Str (algorithm_value c),
           script = Str (script_value c),
           toleranceCents = Undefined,
           includeContour = Bool True \<rparr>)"

text \<open>\<open>getOptions\<close> of web/js/ui.js: the same, without the \<open>includeContour\<close> entry.\<close>

definition getOptions_legacy :: "(string \<Rightarrow> jsval) \<Rightarrow> controls \<Rightarrow> options" where
  "getOptions_legacy parseFloat c =
     (let saHz = parseFloat (saPreset_value c);
          saHz = (if saPreset_value c = ''custom''
                  then js_or (parseFloat (saCustom_value c)) (Num 261.63) else saHz)
      in \<lparr> referenceSaHz = saHz,
           algorithm = Str (algorithm_value c),
           script = Str (script_value c),
           toleranceCents = Undefined,
           includeContour = Undefined \<rparr>)"

definition setState :: "session_state \<Rightarrow> controller \<Rightarrow> controller" where
  "setState s c = c\<lparr>ui_state := s\<rparr>"

definition showError :: "string \<Rightarrow> controller \<Rightarrow> controller" where
  "showError msg c =
     setState Idle (c\<lparr>recordingStatus_text := msg, recordingStatus_error := True\<rparr>)"

definition clearError :: "controller \<Rightarrow> controller" where
  "clearError c = c\<lparr>recordingStatus_text := [], recordingStatus_error := False\<rparr>"

text \<open>
  \<open>runAnalysis\<close> up to its first suspension: it enters Processing, reads the options and
  calls the API client, which builds the form and calls \<open>fetch\<close> before it first waits.
  The two controllers differ in \<open>getOptions\<close> only, which is the parameter \<open>opts_of\<close>.
\<close>

definition runAnalysis ::
  "(controls \<Rightarrow> options) \<Rightarrow> controls \<Rightarrow> blob \<Rightarrow> bool \<Rightarrow> controller \<Rightarrow> controller" where
  "runAnalysis opts_of ctl blobOrFile isFile c =
     (let c = setState Processing c;
          opts = opts_of ctl;
          req = (if isFile then analyzeFile blobOrFile opts else analyze blobOrFile opts)
      in c\<lparr>requests := requests c @ [req]\<rparr>)"

text \<open>The change handler of the file input; \<open>None\<close> when the selection is empty.\<close>

definition fileInput_change ::
  "(controls \<Rightarrow> options) \<Rightarrow> controls \<Rightarrow> blob option \<Rightarrow> controller \<Rightarrow> controller" where
  "fileInput_change opts_of ctl sel c =
     (case sel of
        None \<Rightarrow> c
      | Some file \<Rightarrow>
          let c = clearError c in
          if blob_size file > 10 * 1024 * 1024
          then showError ''File too large (max 10 MB).'' c
          else runAnalysis opts_of ctl file True c)"


section \<open>The capture engine (web/js/recorder.js)\<close>

text \<open>
  The state of the \<open>MediaRecorder\<close> object, as the recorder reads it (it is never
  paused).
\<close>

datatype mr_state = MRRecording | MRInactive

text \<open>
  \<open>stop()\<close> returns a promise. It has two callers, which treat the result differently:
  the controller's stop handler (\<open>Explicit\<close>) and the timer callback of \<open>start()\<close>
  (\<open>AutoStop\<close>), which hands a clip to \<open>onMaxReached\<close>.
\<close>

datatype caller = Explicit | AutoStop

text \<open>
  What a recorder does to the world, in order: the microphone stream obtained and its
  tracks stopped, the audio context opened and closed, the three callbacks, and the value
  an explicit \<open>stop()\<close> resolves with.
\<close>

datatype effect =
    Acquire | Release | CtxOpen | CtxClose
  | DurationUpdate int | Waveform
  | MaxReached blob | Resolved "blob option"

datatype capture_error = DeviceUnavailable | RuntimeFailure

text \<open>
  How far \<open>start()\<close> gets on the runtime at hand: \<open>getUserMedia\<close> rejects (\<open>Denied\<close>); it
  resolves and then \<open>new AudioContext\<close> throws (\<open>ContextFails\<close>), or \<open>new MediaRecorder\<close>
  throws, as it does on a runtime without \<open>MediaRecorder\<close> (\<open>RecorderFails\<close>), or
  \<open>mediaRecorder.start\<close> throws (\<open>StartFails\<close>); or nothing throws (\<open>Granted\<close>).
\<close>

datatype device = Granted | Denied | ContextFails | RecorderFails | StartFails

text \<open>
  The fields of the class, as they are named there; object-valued fields are kept as
  whether they are set. \<open>onstop\<close> is the handler installed on the media recorder (whose
  promise it resolves), \<open>stop_queued\<close> whether the media recorder still owes its stop
  event, \<open>frame_requested\<close> whether an animation frame is requested, and \<open>audioChunks\<close>
  the sizes of the chunks received.
\<close>

record recorder =
  maxDurationMs :: int
  mimeType :: string
  mediaRecorder :: "mr_state option"
  onstop :: "caller option"
  stop_queued :: bool
  audioChunks :: "nat list"
  stream :: bool
  analyserNode :: bool
  audioCtx :: bool
  startTime :: "int option"
  timerInterval :: bool
  frame_requested :: bool
  effects :: "effect list"

text \<open>
  \<open>_selectMimeType\<close>: the first candidate the runtime supports, the empty string when
  there is none or no \<open>MediaRecorder\<close> at all.
\<close>

definition mime_candidates :: "string list" where
  "mime_candidates =
     [''audio/webm;codecs=opus'', ''audio/webm'', ''audio/ogg;codecs=opus'', ''audio/mp4'']"

definition selectMimeType :: "bool \<Rightarrow> (string \<Rightarrow> bool) \<Rightarrow> string" where
  "selectMimeType has_MediaRecorder isTypeSupported =
     (case List.find (\<lambda>t. has_MediaRecorder \<and> isTypeSupported t) mime_candidates of
        Some t \<Rightarrow> t | None \<Rightarrow> [])"

text \<open>
  The constructor. \<open>options.maxDurationMs || 30000\<close> replaces an absent or zero maximum;
  \<open>mime\<close> is what \<open>_selectMimeType()\<close> returned.
\<close>

definition AudioRecorder :: "int option \<Rightarrow> string \<Rightarrow> recorder" where
  "AudioRecorder opt_max mime =
     \<lparr> maxDurationMs = (case opt_max of None \<Rightarrow> 30000
                         | Some m \<Rightarrow> if m = 0 then 30000 else m),
       mimeType = mime,
       mediaRecorder = None, onstop = None, stop_queued = False,
       audioChunks = [], stream = False, analyserNode = False, audioCtx = False,
       startTime = None, timerInterval = False, frame_requested = False,
       effects = [] \<rparr>"

definition emit :: "effect list \<Rightarrow> recorder \<Rightarrow> recorder" where
  "emit es r = r\<lparr>effects := effects r @ es\<rparr>"

text \<open>\<open>_drawLoop\<close>: one waveform sample and the next frame request, while recording.\<close>

definition drawLoop :: "recorder \<Rightarrow> recorder" where
  "drawLoop r =
     (if \<not> analyserNode r \<or> mediaRecorder r = None \<or> mediaRecorder r \<noteq> Some MRRecording
      then r\<lparr>frame_requested := False\<rparr>
      else emit [Waveform] (r\<lparr>frame_requested := True\<rparr>))"

text \<open>
  \<open>start()\<close> at time \<open>now\<close>, statement by statement. It has no handler of its own: when a
  statement throws, the call throws with the fields assigned so far left as they are, and
  the result is the error together with the recorder in that state. When
  \<open>getUserMedia\<close> rejects no field has been assigned. When nothing throws, the stream
  and the audio context are taken, the media recorder is started, and the timer and the
  draw loop are set up.
\<close>

definition start ::
  "device \<Rightarrow> int \<Rightarrow> recorder \<Rightarrow> (capture_error \<times> recorder) + recorder" where
  "start dev now r =
     (if dev = Denied then Inl (DeviceUnavailable, r)
      else
        let r = emit [Acquire] (r\<lparr>stream := True\<rparr>) in
        if dev = ContextFails then Inl (RuntimeFailure, r)
        else
          let r = emit [CtxOpen] (r\<lparr>audioCtx := True, analyserNode := True, audioChunks := []\<rparr>) in
          if dev = RecorderFails then Inl (RuntimeFailure, r)
          else
            let r = r\<lparr>mediaRecorder := Some MRInactive, onstop := None, stop_queued := False\<rparr> in
            if dev = StartFails then Inl (RuntimeFailure, r)
            else
              Inr (drawLoop (r\<lparr>mediaRecorder := Some MRRecording, startTime := Some now,
                               timerInterval := True\<rparr>)))"

text \<open>The recorder as \<open>start()\<close> leaves it, whether it threw or not.\<close>

definition after_start :: "device \<Rightarrow> int \<Rightarrow> recorder \<Rightarrow> recorder" where
  "after_start dev now r = (case start dev now r of Inl (e, r') \<Rightarrow> r' | Inr r' \<Rightarrow> r')"

text \<open>\<open>_cleanup\<close>: each resource is released only when its field is set, and the field cleared.\<close>

definition cleanup :: "recorder \<Rightarrow> recorder" where
  "cleanup r =
     (let r = (if stream r then emit [Release] (r\<lparr>stream := False\<rparr>) else r)
      in if audioCtx r then emit [CtxClose] (r\<lparr>audioCtx := False\<rparr>) else r)"

text \<open>
  The promise of \<open>stop()\<close> resolving with \<open>result\<close>: the controller receives it, the timer
  callback calls \<open>onMaxReached\<close> when there is a clip.
\<close>

definition resolve :: "caller \<Rightarrow> blob option \<Rightarrow> recorder \<Rightarrow> recorder" where
  "resolve who result r =
     (case who of
        Explicit \<Rightarrow> emit [Resolved result] r
      | AutoStop \<Rightarrow> (case result of None \<Rightarrow> r | Some b \<Rightarrow> emit [MaxReached b] r))"

text \<open>
  \<open>stop()\<close>: the timer is cleared first. With no media recorder, or an inactive one, it
  cleans up and resolves with null. Otherwise it installs the \<open>onstop\<close> handler and calls
  \<open>mediaRecorder.stop()\<close>, which makes the media recorder inactive at once and queues its
  stop event.
\<close>

definition stop :: "caller \<Rightarrow> recorder \<Rightarrow> recorder" where
  "stop who r =
     (let r = (if timerInterval r then r\<lparr>timerInterval := False\<rparr> else r)
      in if mediaRecorder r = None \<or> mediaRecorder r = Some MRInactive
         then resolve who None (cleanup r)
         else r\<lparr>onstop := Some who, mediaRecorder := Some MRInactive, stop_queued := True\<rparr>)"

definition final_blob :: "recorder \<Rightarrow> blob" where
  "final_blob r =
     \<lparr> blob_type = (if mimeType r = [] then ''audio/webm'' else mimeType r),
       blob_size = sum_list (audioChunks r) \<rparr>"

text \<open>
  What happens to a recorder after \<open>start()\<close>: the timer callback runs at a time, the
  controller calls \<open>stop()\<close>, the media recorder delivers its stop event or a chunk of
  data, an animation frame arrives. A timer callback runs only while the interval is set,
  a stop event only when one is queued.
\<close>

datatype event = Tick int | StopCall | StopEvent | DataAvailable nat | Frame

definition elapsed_at :: "recorder \<Rightarrow> int \<Rightarrow> int" where
  "elapsed_at r now = now - (case startTime r of None \<Rightarrow> 0 | Some t \<Rightarrow> t)"

fun step :: "recorder \<Rightarrow> event \<Rightarrow> recorder" where
  "step r (Tick now) =
     (if \<not> timerInterval r then r
      else let elapsed = elapsed_at r now;
               r = emit [DurationUpdate elapsed] r
           in if elapsed \<ge> maxDurationMs r then stop AutoStop r else r)"
| "step r StopCall = stop Explicit r"
| "step r StopEvent =
     (if \<not> stop_queued r then r
      else let r = r\<lparr>stop_queued := False\<rparr>
           in case onstop r of
                None \<Rightarrow> r
              | Some who \<Rightarrow> let b = final_blob r in resolve who (Some b) (cleanup r))"
| "step r (DataAvailable n) =
     (if mediaRecorder r = None then r
      else if n > 0 then r\<lparr>audioChunks := audioChunks r @ [n]\<rparr> else r)"
| "step r Frame = (if frame_requested r then drawLoop r else r)"

text \<open>
  One capture session: \<open>start()\<close> on a recorder at time \<open>now\<close>, then the events in order,
  on the recorder as \<open>start()\<close> left it, also when it threw.
\<close>

definition session :: "device \<Rightarrow> int \<Rightarrow> event list \<Rightarrow> recorder \<Rightarrow> recorder" where
  "session dev now evs r0 = foldl step (after_start dev now r0) evs"

text \<open>The session is over: the media recorder is not recording and owes no stop event.\<close>

definition ended :: "recorder \<Rightarrow> bool" where
  "ended r = (mediaRecorder r \<noteq> Some MRRecording \<and> \<not> stop_queued r)"

definition acquires :: "recorder \<Rightarrow> nat" where
  "acquires r = count_list (effects r) Acquire"

definition releases :: "recorder \<Rightarrow> nat" where
  "releases r = count_list (effects r) Release"

fun is_MaxReached :: "effect \<Rightarrow> bool" where
  "is_MaxReached (MaxReached b) = True"
| "is_MaxReached e = False"

definition max_calls :: "recorder \<Rightarrow> nat" where
  "max_calls r = length (filter is_MaxReached (effects r))"

text \<open>
  A recorder that never held anything, and one that holds a stream nobody will release:
  the stream is set, acquired once and never released, no timer is set and the media
  recorder is not recording.
\<close>

definition untouched :: "recorder \<Rightarrow> bool" where
  "untouched r = (acquires r = 0 \<and> releases r = 0 \<and> \<not> stream r \<and> \<not> audioCtx r
     \<and> \<not> timerInterval r \<and> \<not> stop_queued r \<and> mediaRecorder r = None)"

definition stranded :: "recorder \<Rightarrow> bool" where
  "stranded r = (stream r \<and> acquires r = 1 \<and> releases r = 0
     \<and> \<not> timerInterval r \<and> \<not> stop_queued r \<and> mediaRecorder r \<noteq> Some MRRecording)"

text \<open>What holds of a recorder throughout a session whose \<open>start()\<close> did not throw.\<close>

definition session_inv :: "recorder \<Rightarrow> bool" where
  "session_inv r = (acquires r = 1
     \<and> releases r = (if stream r then 0 else 1)
     \<and> count_list (effects r) CtxOpen = 1
     \<and> count_list (effects r) CtxClose = (if audioCtx r then 0 else 1)
     \<and> (stream r = audioCtx r)
     \<and> (mediaRecorder r \<noteq> None)
     \<and> (mediaRecorder r = Some MRRecording \<longrightarrow> stream r \<and> \<not> stop_queued r)
     \<and> (timerInterval r = (mediaRecorder r = Some MRRecording))
     \<and> (stop_queued r \<longrightarrow> onstop r \<noteq> None)
     \<and> (mediaRecorder r = Some MRInactive \<and> \<not> stop_queued r \<longrightarrow> \<not> stream r))"

text \<open>
  The phases of a session, for the auto-stop callback: \<open>capturing\<close> until the first stop,
  \<open>quiet\<close> as long as no timer callback has seen the maximum, \<open>silent\<close> after an explicit
  stop came first, \<open>auto_pending\<close> and \<open>auto_done\<close> after the timer's stop came first.
\<close>

definition quiet :: "recorder \<Rightarrow> bool" where
  "quiet r = (max_calls r = 0 \<and> (stop_queued r \<longrightarrow> onstop r \<noteq> Some AutoStop)
     \<and> (timerInterval r = (mediaRecorder r = Some MRRecording)) \<and> mediaRecorder r \<noteq> None)"

definition silent :: "recorder \<Rightarrow> bool" where
  "silent r = (max_calls r = 0 \<and> (stop_queued r \<longrightarrow> onstop r \<noteq> Some AutoStop)
     \<and> \<not> timerInterval r \<and> mediaRecorder r = Some MRInactive)"

definition capturing :: "recorder \<Rightarrow> bool" where
  "capturing r = (max_calls r = 0 \<and> \<not> stop_queued r \<and> timerInterval r
     \<and> mediaRecorder r = Some MRRecording)"

definition auto_pending :: "recorder \<Rightarrow> bool" where
  "auto_pending r = (max_calls r = 0 \<and> stop_queued r \<and> onstop r = Some AutoStop
     \<and> \<not> timerInterval r \<and> mediaRecorder r = Some MRInactive)"

definition auto_done :: "recorder \<Rightarrow> bool" where
  "auto_done r = (max_calls r = 1 \<and> \<not> stop_queued r
     \<and> \<not> timerInterval r \<and> mediaRecorder r = Some MRInactive)"

definition at_most_once :: "recorder \<Rightarrow> bool" where
  "at_most_once r = (max_calls r \<le> 1
     \<and> (stop_queued r \<and> onstop r = Some AutoStop \<longrightarrow> max_calls r = 0)
     \<and> (timerInterval r \<longrightarrow> mediaRecorder r = Some MRRecording)
     \<and> (mediaRecorder r = Some MRRecording \<longrightarrow> \<not> stop_queued r \<and> max_calls r = 0))"


section \<open>The renderer: markup (NotationRenderer)\<close>

text \<open>
  Strings are lists of \<open>char\<close>, read as UTF-8 bytes; on ASCII text a byte is a character
  of the JavaScript string. How the runtime prints a number that is not a whole number
  is left to it: \<open>Number.prototype.toFixed\<close> and the conversion of a number to a string
  are parameters of the renderer.
\<close>

record runtime =
  toFixed :: "nat \<Rightarrow> real \<Rightarrow> string"
  numToString :: "real \<Rightarrow> string"

text \<open>
  \<open>toUpperCase\<close> on ASCII letters; every other byte is kept, also those of a letter
  outside ASCII, which the runtime would map.
\<close>

definition upper_char :: "char \<Rightarrow> char" where
  "upper_char c =
     (case map_of (zip ''abcdefghijklmnopqrstuvwxyz'' ''ABCDEFGHIJKLMNOPQRSTUVWXYZ'') c of
        Some u \<Rightarrow> u | None \<Rightarrow> c)"

definition toUpperCase :: "string \<Rightarrow> string" where
  "toUpperCase s = map upper_char s"

text \<open>A natural number (a rank, a count) in decimal.\<close>

definition digit_char :: "nat \<Rightarrow> char" where
  "digit_char d = ''0123456789'' ! d"

fun showNat :: "nat \<Rightarrow> string" where
  "showNat n = (if n < 10 then [digit_char n] else showNat (n div 10) @ [digit_char (n mod 10)])"

declare showNat.simps [simp del]

text \<open>\<open>Array.prototype.join\<close> on an array of strings.\<close>

fun join :: "string \<Rightarrow> string list \<Rightarrow> string" where
  "join sep [] = []"
| "join sep [x] = x"
| "join sep (x # y # ys) = x @ sep @ join sep (y # ys)"

text \<open>
  \<open>_esc\<close> assigns the string to the \<open>textContent\<close> of a fresh element and reads its
  \<open>innerHTML\<close> back. The serialisation of a text node replaces \<open>&\<close>, \<open><\<close>, \<open>>\<close> and the
  no-break space (U+00A0, the bytes C2 A0) by their entities and nothing else.
\<close>

definition esc1 :: "char \<Rightarrow> string" where
  "esc1 c = (if c = CHR ''&'' then ''&amp;''
             else if c = CHR ''<'' then ''&lt;''
             else if c = CHR ''>'' then ''&gt;''
             else [c])"

fun esc :: "string \<Rightarrow> string" where
  "esc [] = []"
| "esc [c] = esc1 c"
| "esc (c # d # cs) =
     (if c = CHR 0xC2 \<and> d = CHR 0xA0 then ''&nbsp;'' @ esc cs else esc1 c @ esc (d # cs))"

text \<open>
  An element as the renderer leaves it: its class, the markup assigned to its
  \<open>innerHTML\<close> (which the browser parses) and the elements appended to it afterwards.
\<close>

datatype dom = Elem (className: string) (innerHTML: string) (children: "dom list")

text \<open>
  A candidate of the result document. \<open>raga_number\<close> is the text the concatenation
  \<open>'Melakarta ' + c.raga_number\<close> makes of the value; \<open>raga_confidence\<close> is the field
  \<open>confidence\<close>.
\<close>

record raga_candidate =
  raga_name :: string
  raga_number :: string
  raga_confidence :: real
  arohana :: "string list"
  avarohana :: "string list"

text \<open>The arrows U+2191 and U+2193 of the scale line.\<close>

definition uarr :: string where
  "uarr = [CHR 0xE2, CHR 0x86, CHR 0x91]"

definition darr :: string where
  "darr = [CHR 0xE2, CHR 0x86, CHR 0x93]"

text \<open>The element built for the candidate at index \<open>i\<close>.\<close>

definition ragaDiv :: "runtime \<Rightarrow> nat \<Rightarrow> raga_candidate \<Rightarrow> dom" where
  \<open>ragaDiv rt i c =
     (let pct = toFixed rt 0 (raga_confidence c * 100);
          rankClass = (if i = 0 then ''raga-rank--1''
                       else if i = 1 then ''raga-rank--2''
                       else if i = 2 then ''raga-rank--3''
                       else ''raga-rank--default'')
      in Elem ''raga-candidate''
          (''<span class="raga-rank '' @ rankClass @ ''">'' @ showNat (i + 1) @ ''</span>'' @
           ''<div><span class="raga-name">'' @ esc (raga_name c) @ ''</span>'' @
           '' <span class="raga-number">Melakarta '' @ raga_number c @ ''</span></div>'' @
           ''<div class="confidence-bar"><div class="confidence-fill" style="width:0%"'' @
           '' data-target-width="'' @ pct @ ''%"></div></div>'' @
           ''<span class="confidence-pct">'' @ pct @ ''%</span>'' @
           ''<div class="raga-scale">'' @ uarr @ '' '' @ join '' '' (arohana c) @
           ''  |  '' @ darr @ '' '' @ join '' '' (avarohana c) @ ''</div>'')
          [])\<close>

fun ragaDivs :: "runtime \<Rightarrow> nat \<Rightarrow> raga_candidate list \<Rightarrow> dom list" where
  "ragaDivs rt i [] = []"
| "ragaDivs rt i (c # cs) = ragaDiv rt i c # ragaDivs rt (Suc i) cs"

text \<open>
  \<open>renderRagas\<close>, up to the animation of the confidence bars, which only changes their
  width later.
\<close>

definition renderRagas :: "runtime \<Rightarrow> raga_candidate list \<Rightarrow> dom \<Rightarrow> dom" where
  \<open>renderRagas rt candidates container =
     (if candidates = []
      then Elem (className container)
             ''<p style="color:var(--text-muted)">No raga candidates identified.</p>'' []
      else Elem (className container) [] (ragaDivs rt 0 candidates))\<close>


record gamaka =
  gamaka_type :: string

definition GAMAKA_COLORS :: "(string \<times> string) list" where
  "GAMAKA_COLORS =
     [(''kampita'', ''#dbb978''), (''jaru'', ''#66bb6a''),
      (''sphuritham'', ''#e0a840''), (''steady'', ''#6b7394'')]"

text \<open>
  The tally \<open>counts[g.gamaka_type] = (counts[g.gamaka_type] || 0) + 1\<close>, kept as a list
  of entries in the order of first occurrence. A type that names a property every
  object inherits (\<open>constructor\<close>, \<open>toString\<close>, ...) is outside the model: for it the
  source reads the inherited property, here and in the colour table.
\<close>

fun bump :: "(string \<times> nat) list \<Rightarrow> string \<Rightarrow> (string \<times> nat) list" where
  "bump [] k = [(k, 1)]"
| "bump ((k', n) # kvs) k = (if k' = k then (k', n + 1) # kvs else (k', n) # bump kvs k)"

text \<open>
  \<open>Object.entries\<close> lists the keys that are array indices first (the decimal numerals
  without a leading zero up to 4294967294), in ascending order, and then the other keys
  in the order they were added.
\<close>

definition digit_val :: "char \<Rightarrow> nat" where
  "digit_val c = (case map_of (zip ''0123456789'' [0..<10]) c of Some v \<Rightarrow> v | None \<Rightarrow> 0)"

definition array_index :: "string \<Rightarrow> nat option" where
  "array_index s =
     (let n = foldl (\<lambda>a c. 10 * a + digit_val c) 0 s
      in if s \<noteq> [] \<and> list_all (\<lambda>c. c \<in> set ''0123456789'') s
            \<and> (s = ''0'' \<or> hd s \<noteq> CHR ''0'') \<and> n \<le> 4294967294
         then Some n else None)"

definition entries :: "(string \<times> nat) list \<Rightarrow> (string \<times> nat) list" where
  "entries kvs =
     sort_key (\<lambda>e. case array_index (fst e) of Some n \<Rightarrow> n | None \<Rightarrow> 0)
       (filter (\<lambda>e. array_index (fst e) \<noteq> None) kvs)
     @ filter (\<lambda>e. array_index (fst e) = None) kvs"

definition gamakaItem :: "string \<times> nat \<Rightarrow> dom" where
  \<open>gamakaItem e =
     (case e of (type, count) \<Rightarrow>
        let color = (case map_of GAMAKA_COLORS type of Some c \<Rightarrow> c | None \<Rightarrow> ''#6b7394'')
        in Elem ''gamaka-item''
            (''<span class="gamaka-dot" style="background:'' @ color @
             ''; box-shadow: 0 0 8px '' @ color @ ''"></span>'' @
             ''<div class="gamaka-info">'' @
             ''<span class="gamaka-name">'' @ toUpperCase (take 1 type) @ drop 1 type @ ''</span>'' @
             ''<span class="gamaka-count">'' @ showNat count @ '' segment'' @
               (if count \<noteq> 1 then ''s'' else []) @ ''</span>'' @
             ''</div>'')
            [])\<close>

definition renderGamakas :: "gamaka list \<Rightarrow> dom \<Rightarrow> dom" where
  "renderGamakas gamakas container =
     (let counts = foldl bump [] (map gamaka_type gamakas);
          row = Elem ''gamaka-row'' [] (map gamakaItem (entries counts))
      in Elem (className container) [] [row])"

text \<open>The summary fields of the result document.\<close>

record analysis_result =
  duration_s :: real
  result_reference_sa_hz :: real
  result_algorithm :: string
  unique_swaras :: "string list"

definition summaryItem :: "string \<Rightarrow> string \<Rightarrow> string" where
  \<open>summaryItem label v =
     ''<div class="summary-item">'' @
     ''<span class="summary-label">'' @ label @ ''</span>'' @
     ''<span class="summary-value">'' @ esc v @ ''</span></div>''\<close>

definition renderSummary :: "runtime \<Rightarrow> analysis_result \<Rightarrow> dom \<Rightarrow> dom" where
  \<open>renderSummary rt result container =
     Elem (className container)
       (''<div class="summary-grid">'' @
        summaryItem ''Duration'' (toFixed rt 1 (duration_s result) @ ''s'') @
        summaryItem ''Reference Sa'' (numToString rt (result_reference_sa_hz result) @ '' Hz'') @
        summaryItem ''Algorithm'' (toUpperCase (result_algorithm result)) @
        summaryItem ''Swaras'' (join '', '' (unique_swaras result)) @
        ''</div>'')
       []\<close>



section \<open>The renderer: pitch contour (NotationRenderer.renderContour)\<close>

text \<open>
  Numbers are idealised as reals. A coordinate handed to the canvas is \<open>None\<close> when the
  JavaScript value is not finite, which here only a division by zero produces: the
  canvas ignores a \<open>moveTo\<close>, \<open>lineTo\<close> or \<open>fillText\<close> with such an argument.
\<close>

record frame =
  timestamp_ms :: real
  frequency_hz :: real
  confidence :: real

record canvas =
  canvas_width :: nat
  canvas_height :: nat

type_synonym coord = "real option"

text \<open>The calls and assignments the renderer makes on the 2d context, in order.\<close>

datatype cmd =
    FillStyle string | StrokeStyle string | Font string | TextAlign string
  | LineWidth real | LineJoin string | SetLineDash "real list"
  | FillRect coord coord coord coord
  | BeginPath | MoveTo coord coord | LineTo coord coord | Stroke | Fill
  | FillText string coord coord

definition padding_top :: real where "padding_top = 20"
definition padding_bottom :: real where "padding_bottom = 30"
definition padding_left :: real where "padding_left = 55"
definition padding_right :: real where "padding_right = 15"

text \<open>The local constants both scale functions close over.\<close>

record scales =
  W :: real
  H :: real
  plotW :: real
  plotH :: real
  fMin :: real
  fMax :: real
  tMin :: real
  tMax :: real

definition js_div :: "real \<Rightarrow> real \<Rightarrow> real option" where
  "js_div a b = (if b = 0 then None else Some (a / b))"

definition xScale :: "scales \<Rightarrow> real \<Rightarrow> coord" where
  "xScale sc ms =
     map_option (\<lambda>q. padding_left + q * plotW sc) (js_div (ms - tMin sc) (tMax sc - tMin sc))"

definition yScale :: "scales \<Rightarrow> real \<Rightarrow> coord" where
  "yScale sc hz =
     map_option (\<lambda>q. padding_top + plotH sc - q * plotH sc)
       (js_div (hz - fMin sc) (fMax sc - fMin sc))"

text \<open>
  The two tests of the source: a frame is voiced for the frequency bounds when its
  confidence is above 0.2, and it breaks the curve when its confidence is below 0.2.
\<close>

definition is_voiced :: "frame \<Rightarrow> bool" where
  "is_voiced f = (frequency_hz f > 0 \<and> confidence f > 0.2)"

definition is_break :: "frame \<Rightarrow> bool" where
  "is_break f = (frequency_hz f \<le> 0 \<or> confidence f < 0.2)"

text \<open>The loop \<open>for (let i = 0; i <= n; i++)\<close>, started at \<open>i\<close>.\<close>

function forLoop :: "nat \<Rightarrow> nat \<Rightarrow> (nat \<Rightarrow> 'a list) \<Rightarrow> 'a list" where
  "forLoop i n body = (if i \<le> n then body i @ forLoop (Suc i) n body else [])"
  by pat_completeness auto
termination
  by (relation "measure (\<lambda>(i, n, body). Suc n - i)") auto

declare forLoop.simps [simp del]

text \<open>
  The dashed line and the label at the tonic, and a fainter line at 1.5 and 2 times it.
  The parameter \<open>referenceSaHz\<close> of the source is written \<open>refSaHz\<close>.
\<close>

definition saLine :: "runtime \<Rightarrow> scales \<Rightarrow> real \<Rightarrow> cmd list" where
  "saLine rt sc refSaHz =
     (if refSaHz \<ge> fMin sc \<and> refSaHz \<le> fMax sc then
        let saY = yScale sc refSaHz in
        [StrokeStyle ''rgba(197, 160, 89, 0.25)'', SetLineDash [6, 4], LineWidth 1,
         BeginPath, MoveTo (Some padding_left) saY, LineTo (Some (W sc - padding_right)) saY,
         Stroke, SetLineDash [],
         FillStyle ''rgba(197, 160, 89, 0.5)'', Font ''10px JetBrains Mono, monospace'',
         TextAlign ''left'',
         FillText (''Sa '' @ numToString rt refSaHz @ '' Hz'')
           (Some (padding_left + 4)) (map_option (\<lambda>y. y - 4) saY)]
      else [])"

definition octaveLine :: "scales \<Rightarrow> real \<Rightarrow> cmd list" where
  "octaveLine sc hz =
     (if hz \<ge> fMin sc \<and> hz \<le> fMax sc then
        let y = yScale sc hz in
        [StrokeStyle ''rgba(197, 160, 89, 0.1)'', SetLineDash [3, 5], LineWidth 1,
         BeginPath, MoveTo (Some padding_left) y, LineTo (Some (W sc - padding_right)) y,
         Stroke, SetLineDash []]
      else [])"

text \<open>The pitch curve: the loop over the frames with its flag \<open>started\<close>.\<close>

fun lineLoop :: "scales \<Rightarrow> bool \<Rightarrow> frame list \<Rightarrow> cmd list" where
  "lineLoop sc started [] = []"
| "lineLoop sc started (f # fs) =
     (if frequency_hz f \<le> 0 \<or> confidence f < 0.2 then lineLoop sc False fs
      else let x = xScale sc (timestamp_ms f); y = yScale sc (frequency_hz f)
           in if \<not> started then MoveTo x y # lineLoop sc True fs
              else LineTo x y # lineLoop sc True fs)"

definition contourLine :: "scales \<Rightarrow> frame list \<Rightarrow> cmd list" where
  "contourLine sc contour =
     [StrokeStyle ''#5cc8d4'', LineWidth 2, LineJoin ''round'', BeginPath]
     @ lineLoop sc False contour @ [Stroke]"

text \<open>The shading: the loop over the frames with \<open>started\<close> and \<open>lastX\<close>.\<close>

fun fillLoop :: "scales \<Rightarrow> bool \<Rightarrow> coord \<Rightarrow> frame list \<Rightarrow> cmd list" where
  "fillLoop sc started lastX [] =
     (if started then [LineTo lastX (Some (padding_top + plotH sc)), Fill] else [])"
| "fillLoop sc started lastX (f # fs) =
     (if frequency_hz f \<le> 0 \<or> confidence f < 0.2 then
        (if started
         then [LineTo lastX (Some (padding_top + plotH sc)), Fill, BeginPath]
              @ fillLoop sc False lastX fs
         else fillLoop sc started lastX fs)
      else let x = xScale sc (timestamp_ms f); y = yScale sc (frequency_hz f)
           in (if \<not> started
               then [MoveTo x (Some (padding_top + plotH sc)), LineTo x y]
               else [LineTo x y])
              @ fillLoop sc True x fs)"

definition contourFill :: "scales \<Rightarrow> frame list \<Rightarrow> cmd list" where
  "contourFill sc contour =
     [FillStyle ''rgba(92, 200, 212, 0.08)'', BeginPath] @ fillLoop sc False (Some 0) contour"

text \<open>The two axes.\<close>

definition nTicks :: nat where
  "nTicks = 6"

definition nYTicks :: nat where
  "nYTicks = 4"

definition timeTick :: "runtime \<Rightarrow> scales \<Rightarrow> nat \<Rightarrow> cmd list" where
  "timeTick rt sc i =
     (let t = tMin sc + (tMax sc - tMin sc) * (real i / real nTicks);
          x = xScale sc t
      in [FillText (toFixed rt 1 (t / 1000) @ ''s'') x (Some (H sc - 6)),
          StrokeStyle ''rgba(197, 160, 89, 0.06)'', LineWidth 1,
          BeginPath, MoveTo x (Some padding_top), LineTo x (Some (padding_top + plotH sc)),
          Stroke])"

definition timeAxis :: "runtime \<Rightarrow> scales \<Rightarrow> cmd list" where
  "timeAxis rt sc =
     [FillStyle ''#786e60'', Font ''10px JetBrains Mono, monospace'', TextAlign ''center'']
     @ forLoop 0 nTicks (timeTick rt sc)"

definition freqTick :: "runtime \<Rightarrow> scales \<Rightarrow> nat \<Rightarrow> cmd list" where
  "freqTick rt sc i =
     (let hz = fMin sc + (fMax sc - fMin sc) * (real i / real nYTicks);
          y = yScale sc hz
      in [FillStyle ''#786e60'',
          FillText (toFixed rt 0 hz @ '' Hz'') (Some (padding_left - 6))
            (map_option (\<lambda>y. y + 3) y)])"

definition freqAxis :: "runtime \<Rightarrow> scales \<Rightarrow> cmd list" where
  "freqAxis rt sc = [TextAlign ''right''] @ forLoop 0 nYTicks (freqTick rt sc)"

text \<open>What is drawn for an empty series (or none).\<close>

definition placeholder :: "canvas \<Rightarrow> cmd list" where
  \<open>placeholder cv =
     [FillStyle ''#0d1624'',
      FillRect (Some 0) (Some 0) (Some (real (canvas_width cv))) (Some (real (canvas_height cv))),
      FillStyle ''#786e60'', Font ''14px Inter, sans-serif'', TextAlign ''center'',
      FillText ''No contour data (enable "include contour" to see this)''
        (Some (real (canvas_width cv) / 2)) (Some (real (canvas_height cv) / 2))]\<close>

definition voiced_of :: "frame list \<Rightarrow> frame list" where
  "voiced_of contour = filter (\<lambda>f. frequency_hz f > 0 \<and> confidence f > 0.2) contour"

text \<open>
  The bounds and sizes computed once there is a voiced frame: \<open>Math.min\<close> and
  \<open>Math.max\<close> over the voiced frequencies, the first and the last timestamp of the whole
  series. It is only used under that guard, so neither list is empty.
\<close>

definition scales_of :: "frame list \<Rightarrow> canvas \<Rightarrow> scales" where
  "scales_of contour cv =
     (let w = real (canvas_width cv); h = real (canvas_height cv);
          freqs = map frequency_hz (voiced_of contour)
      in \<lparr> W = w, H = h,
           plotW = w - padding_left - padding_right,
           plotH = h - padding_top - padding_bottom,
           fMin = fold min (tl freqs) (hd freqs) * 0.9,
           fMax = fold max (tl freqs) (hd freqs) * 1.1,
           tMin = timestamp_ms (hd contour),
           tMax = timestamp_ms (last contour) \<rparr>)"

definition clear_cmds :: "canvas \<Rightarrow> cmd list" where
  "clear_cmds cv = [FillStyle ''#0d1624'',
     FillRect (Some 0) (Some 0) (Some (real (canvas_width cv))) (Some (real (canvas_height cv)))]"


text \<open>
  \<open>renderContour\<close>. A series that is null is drawn as the empty one is. With no voiced
  frame the function returns after clearing the canvas.
\<close>

definition renderContour :: "runtime \<Rightarrow> frame list \<Rightarrow> real \<Rightarrow> canvas \<Rightarrow> cmd list" where
  "renderContour rt contour refSaHz cv =
     (if contour = [] then placeholder cv
      else
        if voiced_of contour = [] then clear_cmds cv
           else
             let sc = scales_of contour cv
             in clear_cmds cv
                @ saLine rt sc refSaHz
                @ concat (map (octaveLine sc) [refSaHz * 1.5, refSaHz * 2])
                @ contourLine sc contour
                @ contourFill sc contour
                @ timeAxis rt sc
                @ freqAxis rt sc)"


section \<open>What the canvas draws\<close>

text \<open>
  The current path of the context is a list of sub-paths, each a list of points.
  \<open>moveTo\<close> starts a new sub-path, \<open>lineTo\<close> extends the last one (or starts one when
  there is none), \<open>beginPath\<close> empties the path; \<open>stroke\<close> and \<open>fill\<close> paint the current
  path in the current style and keep it. A call with a coordinate that is not finite
  does nothing.
\<close>

type_synonym point = "real \<times> real"

record cstate =
  path :: "point list list"
  strokeStyle :: string
  fillStyle :: string

datatype drawn = Stroked string "point list list" | Filled string "point list list"

fun apply_cmd :: "cmd \<Rightarrow> cstate \<Rightarrow> cstate" where
  "apply_cmd (StrokeStyle s) st = st\<lparr>strokeStyle := s\<rparr>"
| "apply_cmd (FillStyle s) st = st\<lparr>fillStyle := s\<rparr>"
| "apply_cmd BeginPath st = st\<lparr>path := []\<rparr>"
| "apply_cmd (MoveTo x y) st =
     (case (x, y) of
        (Some a, Some b) \<Rightarrow> st\<lparr>path := path st @ [[(a, b)]]\<rparr>
      | _ \<Rightarrow> st)"
| "apply_cmd (LineTo x y) st =
     (case (x, y) of
        (Some a, Some b) \<Rightarrow>
          st\<lparr>path := (if path st = [] then [[(a, b)]]
                       else butlast (path st) @ [last (path st) @ [(a, b)]])\<rparr>
      | _ \<Rightarrow> st)"
| "apply_cmd c st = st"

fun painted :: "cmd \<Rightarrow> cstate \<Rightarrow> drawn list" where
  "painted Stroke st = [Stroked (strokeStyle st) (path st)]"
| "painted Fill st = [Filled (fillStyle st) (path st)]"
| "painted c st = []"

text \<open>What a list of commands paints, from a state of the context, and the state it leaves.\<close>

fun draw :: "cstate \<Rightarrow> cmd list \<Rightarrow> drawn list" where
  "draw st [] = []"
| "draw st (c # cs) = painted c st @ draw (apply_cmd c st) cs"

definition run :: "cstate \<Rightarrow> cmd list \<Rightarrow> cstate" where
  "run st cs = fold apply_cmd cs st"

text \<open>
  The paths stroked in a given colour, the paths filled, and the texts written with the
  place of each: a \<open>fillText\<close> with a coordinate that is not finite writes nothing.
\<close>

fun strokes_with :: "string \<Rightarrow> drawn list \<Rightarrow> point list list list" where
  "strokes_with s [] = []"
| "strokes_with s (Stroked s' p # ds) = (if s' = s then p # strokes_with s ds else strokes_with s ds)"
| "strokes_with s (Filled s' p # ds) = strokes_with s ds"

fun fills_of :: "drawn list \<Rightarrow> point list list list" where
  "fills_of [] = []"
| "fills_of (Filled s p # ds) = p # fills_of ds"
| "fills_of (Stroked s p # ds) = fills_of ds"

fun texts :: "cmd list \<Rightarrow> (string \<times> real \<times> real) list" where
  "texts [] = []"
| "texts (FillText s x y # cs) =
     (case (x, y) of
        (Some a, Some b) \<Rightarrow> (s, a, b) # texts cs
      | _ \<Rightarrow> texts cs)"
| "texts (c # cs) = texts cs"

fun is_MoveTo :: "cmd \<Rightarrow> bool" where
  "is_MoveTo (MoveTo x y) = True"
| "is_MoveTo c = False"

section \<open>Runs of a series\<close>

text \<open>
  The maximal runs of consecutive frames that do not break the curve, in order; the
  point of a frame on the canvas, and the outline shaded under a run.
\<close>

fun runs_acc :: "frame list \<Rightarrow> frame list \<Rightarrow> frame list list" where
  "runs_acc cur [] = (if cur = [] then [] else [cur])"
| "runs_acc cur (f # fs) =
     (if is_break f then (if cur = [] then [] else [cur]) @ runs_acc [] fs
      else runs_acc (cur @ [f]) fs)"

definition runs :: "frame list \<Rightarrow> frame list list" where
  "runs fs = runs_acc [] fs"

definition px :: "scales \<Rightarrow> real \<Rightarrow> real" where
  "px sc ms = padding_left + ((ms - tMin sc) / (tMax sc - tMin sc)) * plotW sc"

definition py :: "scales \<Rightarrow> real \<Rightarrow> real" where
  "py sc hz = padding_top + plotH sc - ((hz - fMin sc) / (fMax sc - fMin sc)) * plotH sc"

definition point_of :: "scales \<Rightarrow> frame \<Rightarrow> point" where
  "point_of sc f = (px sc (timestamp_ms f), py sc (frequency_hz f))"

definition shape_of :: "scales \<Rightarrow> frame list \<Rightarrow> point list" where
  "shape_of sc r =
     (px sc (timestamp_ms (hd r)), padding_top + plotH sc) # map (point_of sc) r
     @ [(px sc (timestamp_ms (last r)), padding_top + plotH sc)]"

text \<open>A list of commands that strokes nothing in the colour of the curve and fills no path.\<close>

definition plain :: "cmd list \<Rightarrow> bool" where
  "plain cs = (\<forall>st. strokes_with ''#5cc8d4'' (draw st cs) = [] \<and> fills_of (draw st cs) = [])"

section \<open>Examples\<close>

definition mk :: "real \<Rightarrow> real \<Rightarrow> real \<Rightarrow> frame" where
  "mk t f c = \<lparr>timestamp_ms = t, frequency_hz = f, confidence = c\<rparr>"

text \<open>
  A runtime for the examples, which prints every number as a mark: none of them depends
  on how numbers are printed. The state of a fresh context.
\<close>

definition rt0 :: runtime where
  "rt0 = \<lparr>toFixed = (\<lambda>d x. ''#''), numToString = (\<lambda>x. ''#'')\<rparr>"

definition st0 :: cstate where
  "st0 = \<lparr>path = [], strokeStyle = ''#000000'', fillStyle = ''#000000''\<rparr>"

text \<open>
  Ten frames, 100 ms apart, of which the third to the fifth have a confidence below
  0.2; a canvas of 800 by 300; a series whose second frame has confidence 0.2 exactly;
  and a series of one such frame alone.
\<close>

definition contour10 :: "frame list" where
  "contour10 =
     [mk 0 220 0.9, mk 100 225 0.8, mk 200 230 0.1, mk 300 0 0, mk 400 240 0.15,
      mk 500 245 0.9, mk 600 250 0.9, mk 700 255 0.7, mk 800 260 0.9, mk 900 265 0.9]"

definition canvas0 :: canvas where
  "canvas0 = \<lparr>canvas_width = 800, canvas_height = 300\<rparr>"

definition contour2 :: "frame list" where
  "contour2 = [mk 0 100 0.9, mk 10 500 0.2]"

definition contour1 :: "frame list" where
  "contour1 = [mk 0 100 0.2]"


section \<open>Falsy options fall back to the defaults\<close>

lemma js_or_not_zero: "b \<noteq> Num 0 \<Longrightarrow> js_or a b \<noteq> Num 0"
  by (cases "truthy a") (auto simp: js_or_def)

text \<open>
  C10. In the request built by \<open>analyze\<close> and by \<open>analyzeFile\<close>, every option whose
  value is falsy is replaced by its default (261.63, "pyin", "iast", 40, false), and a
  truthy one is passed on as it is; so neither the reference frequency nor the tolerance
  handed to the form is ever the number 0.
\<close>

theorem falsy_options_defaulted:
  "form_fields (analyze b opts) =
     map2 (\<lambda>v d. if truthy v then v else d) (option_values opts) defaults
   \<and> form_fields (analyzeFile b opts) = form_fields (analyze b opts)
   \<and> reference_sa_hz (analyze b opts) \<noteq> Num 0
   \<and> tolerance_cents (analyze b opts) \<noteq> Num 0
   \<and> reference_sa_hz (analyzeFile b opts) \<noteq> Num 0
   \<and> tolerance_cents (analyzeFile b opts) \<noteq> Num 0"
proof -
  have "form_fields (analyze b opts) =
     map2 (\<lambda>v d. if truthy v then v else d) (option_values opts) defaults"
    by (simp add: analyze_def form_fields_def option_values_def defaults_def js_or_def)
  moreover have "form_fields (analyzeFile b opts) = form_fields (analyze b opts)"
    by (simp add: analyze_def analyzeFile_def form_fields_def)
  moreover have "reference_sa_hz (analyze b opts) \<noteq> Num 0"
    "tolerance_cents (analyze b opts) \<noteq> Num 0"
    "reference_sa_hz (analyzeFile b opts) \<noteq> Num 0"
    "tolerance_cents (analyzeFile b opts) \<noteq> Num 0"
    by (simp_all add: analyze_def analyzeFile_def js_or_not_zero)
  ultimately show ?thesis by blast
qed

text \<open>
  The options \<open>{referenceSaHz: 0, algorithm: '', script: '', toleranceCents: 0}\<close>
  (no \<open>includeContour\<close>) are submitted as the five defaults.
\<close>

theorem falsy_options_defaulted_witness:
  "form_fields (analyze \<lparr>blob_type = ''audio/webm'', blob_size = 1\<rparr>
      \<lparr>referenceSaHz = Num 0, algorithm = Str [], script = Str [],
       toleranceCents = Num 0, includeContour = Undefined\<rparr>)
    = [Num 261.63, Str ''pyin'', Str ''iast'', Num 40, Bool False]
   \<and> form_fields (analyzeFile \<lparr>blob_type = ''audio/webm'', blob_size = 1\<rparr>
      \<lparr>referenceSaHz = Num 0, algorithm = Str [], script = Str [],
       toleranceCents = Num 0, includeContour = Undefined\<rparr>)
    = [Num 261.63, Str ''pyin'', Str ''iast'', Num 40, Bool False]"
  using falsy_options_defaulted [of "\<lparr>blob_type = ''audio/webm'', blob_size = 1\<rparr>"
      "\<lparr>referenceSaHz = Num 0, algorithm = Str [], script = Str [],
       toleranceCents = Num 0, includeContour = Undefined\<rparr>"]
  by (simp add: option_values_def defaults_def)


section \<open>The session controller: file size limit and contour flag\<close>

text \<open>
  C6. When a file is selected, a file of at most 10 485 760 bytes (10 MiB) is accepted:
  the controller enters Processing and exactly one request, the one for this file, is
  handed to the network. A file of 10 485 761 bytes or more is rejected before any
  request is made: the error "File too large (max 10 MB)." is shown and the controller is
  in Idle.
\<close>

theorem file_size_limit:
  "(blob_size file \<le> 10485760 \<longrightarrow>
      ui_state (fileInput_change opts_of ctl (Some file) c) = Processing
    \<and> requests (fileInput_change opts_of ctl (Some file) c)
        = requests c @ [analyzeFile file (opts_of ctl)])
   \<and> (blob_size file \<ge> 10485761 \<longrightarrow>
      requests (fileInput_change opts_of ctl (Some file) c) = requests c
    \<and> ui_state (fileInput_change opts_of ctl (Some file) c) = Idle
    \<and> recordingStatus_text (fileInput_change opts_of ctl (Some file) c)
        = ''File too large (max 10 MB).''
    \<and> recordingStatus_error (fileInput_change opts_of ctl (Some file) c))"
  by (simp add: fileInput_change_def runAnalysis_def showError_def setState_def
      clearError_def Let_def)

text \<open>The two sizes at the boundary, selected in Idle with no request made yet.\<close>

theorem file_size_limit_witness:
  "(let c0 = \<lparr>ui_state = Idle, recordingStatus_text = [], recordingStatus_error = False,
              requests = []\<rparr>;
        ctl = \<lparr>saPreset_value = ''261.63'', saCustom_value = [], algorithm_value = ''pyin'',
               script_value = ''iast''\<rparr>;
        ok = fileInput_change (getOptions (\<lambda>s. Num 261.63)) ctl
               (Some \<lparr>blob_type = ''audio/wav'', blob_size = 10485760\<rparr>) c0;
        big = fileInput_change (getOptions (\<lambda>s. Num 261.63)) ctl
               (Some \<lparr>blob_type = ''audio/wav'', blob_size = 10485761\<rparr>) c0
    in ui_state ok = Processing \<and> length (requests ok) = 1
     \<and> ui_state big = Idle \<and> requests big = []
     \<and> recordingStatus_text big = ''File too large (max 10 MB).'')"
  using file_size_limit [of "\<lparr>blob_type = ''audio/wav'', blob_size = 10485760\<rparr>"
      "getOptions (\<lambda>s. Num 261.63)"
      "\<lparr>saPreset_value = ''261.63'', saCustom_value = [], algorithm_value = ''pyin'',
               script_value = ''iast''\<rparr>"
      "\<lparr>ui_state = Idle, recordingStatus_text = [], recordingStatus_error = False,
              requests = []\<rparr>"]
   file_size_limit [of "\<lparr>blob_type = ''audio/wav'', blob_size = 10485761\<rparr>"
      "getOptions (\<lambda>s. Num 261.63)"
      "\<lparr>saPreset_value = ''261.63'', saCustom_value = [], algorithm_value = ''pyin'',
               script_value = ''iast''\<rparr>"
      "\<lparr>ui_state = Idle, recordingStatus_text = [], recordingStatus_error = False,
              requests = []\<rparr>"]
  by (simp add: Let_def)

text \<open>
  C7. Every request the session controller builds at submission time carries
  \<open>include_contour = true\<close>, whatever the controls hold and whether a recording or a
  file is submitted, so the contour view it draws is always populated.
\<close>

theorem contour_flag_forced:
  "include_contour (last (requests (runAnalysis (getOptions parseFloat) ctl b isFile c)))
     = Bool True"
  by (simp add: runAnalysis_def getOptions_def analyze_def analyzeFile_def js_or_def Let_def)

text \<open>
  The duplicate controller of web/js/ui.js draws no contour and passes no
  \<open>includeContour\<close> option: every request it builds carries \<open>include_contour = false\<close>.
\<close>

lemma legacy_contour_flag:
  "include_contour (last (requests (runAnalysis (getOptions_legacy parseFloat) ctl b isFile c)))
     = Bool False"
  by (simp add: runAnalysis_def getOptions_legacy_def analyze_def analyzeFile_def js_or_def
      Let_def)


section \<open>The capture engine: resources, auto-stop and idempotent stop\<close>

subsection \<open>What each operation does to each field\<close>

lemma emit_fields [simp]:
  "maxDurationMs (emit es r) = maxDurationMs r" "mediaRecorder (emit es r) = mediaRecorder r"
  "onstop (emit es r) = onstop r" "stop_queued (emit es r) = stop_queued r"
  "stream (emit es r) = stream r" "audioCtx (emit es r) = audioCtx r"
  "startTime (emit es r) = startTime r" "timerInterval (emit es r) = timerInterval r"
  "frame_requested (emit es r) = frame_requested r" "analyserNode (emit es r) = analyserNode r"
  "effects (emit es r) = effects r @ es"
  by (simp_all add: emit_def)

lemma drawLoop_fields [simp]:
  "maxDurationMs (drawLoop r) = maxDurationMs r" "mediaRecorder (drawLoop r) = mediaRecorder r"
  "onstop (drawLoop r) = onstop r" "stop_queued (drawLoop r) = stop_queued r"
  "stream (drawLoop r) = stream r" "audioCtx (drawLoop r) = audioCtx r"
  "startTime (drawLoop r) = startTime r" "timerInterval (drawLoop r) = timerInterval r"
  "effects (drawLoop r) = effects r @
     (if analyserNode r \<and> mediaRecorder r = Some MRRecording then [Waveform] else [])"
  by (simp_all add: drawLoop_def)

lemma cleanup_fields [simp]:
  "maxDurationMs (cleanup r) = maxDurationMs r" "mediaRecorder (cleanup r) = mediaRecorder r"
  "onstop (cleanup r) = onstop r" "stop_queued (cleanup r) = stop_queued r"
  "stream (cleanup r) = False" "audioCtx (cleanup r) = False"
  "startTime (cleanup r) = startTime r" "timerInterval (cleanup r) = timerInterval r"
  "effects (cleanup r) = effects r @ (if stream r then [Release] else [])
      @ (if audioCtx r then [CtxClose] else [])"
  by (simp_all add: cleanup_def Let_def)

lemma resolve_fields [simp]:
  "maxDurationMs (resolve who res r) = maxDurationMs r"
  "mediaRecorder (resolve who res r) = mediaRecorder r"
  "onstop (resolve who res r) = onstop r" "stop_queued (resolve who res r) = stop_queued r"
  "stream (resolve who res r) = stream r" "audioCtx (resolve who res r) = audioCtx r"
  "startTime (resolve who res r) = startTime r"
  "timerInterval (resolve who res r) = timerInterval r"
  "effects (resolve who res r) = effects r @
     (case who of Explicit \<Rightarrow> [Resolved res]
      | AutoStop \<Rightarrow> (case res of None \<Rightarrow> [] | Some b \<Rightarrow> [MaxReached b]))"
  by (simp_all add: resolve_def split: caller.splits option.splits)

lemma stop_fields:
  "maxDurationMs (stop who r) = maxDurationMs r"
  "startTime (stop who r) = startTime r"
  "timerInterval (stop who r) = False"
  "mediaRecorder (stop who r) = (if mediaRecorder r = None then None else Some MRInactive)"
  "stop_queued (stop who r) = (stop_queued r \<or> mediaRecorder r = Some MRRecording)"
  "onstop (stop who r) = (if mediaRecorder r = Some MRRecording then Some who else onstop r)"
  "stream (stop who r) = (stream r \<and> mediaRecorder r = Some MRRecording)"
  "audioCtx (stop who r) = (audioCtx r \<and> mediaRecorder r = Some MRRecording)"
  "effects (stop who r) =
     (if mediaRecorder r = Some MRRecording then effects r
      else effects r @ (if stream r then [Release] else [])
        @ (if audioCtx r then [CtxClose] else [])
        @ (case who of Explicit \<Rightarrow> [Resolved None] | AutoStop \<Rightarrow> []))"
proof -
  consider "mediaRecorder r = None" | "mediaRecorder r = Some MRInactive"
    | "mediaRecorder r = Some MRRecording"
    by (cases "mediaRecorder r") (auto intro: mr_state.exhaust)
  then show "maxDurationMs (stop who r) = maxDurationMs r"
  "startTime (stop who r) = startTime r"
  "timerInterval (stop who r) = False"
  "mediaRecorder (stop who r) = (if mediaRecorder r = None then None else Some MRInactive)"
  "stop_queued (stop who r) = (stop_queued r \<or> mediaRecorder r = Some MRRecording)"
  "onstop (stop who r) = (if mediaRecorder r = Some MRRecording then Some who else onstop r)"
  "stream (stop who r) = (stream r \<and> mediaRecorder r = Some MRRecording)"
  "audioCtx (stop who r) = (audioCtx r \<and> mediaRecorder r = Some MRRecording)"
  "effects (stop who r) =
     (if mediaRecorder r = Some MRRecording then effects r
      else effects r @ (if stream r then [Release] else [])
        @ (if audioCtx r then [CtxClose] else [])
        @ (case who of Explicit \<Rightarrow> [Resolved None] | AutoStop \<Rightarrow> []))"
    by (cases; simp add: stop_def Let_def split: caller.splits)+
qed

subsection \<open>The session invariant\<close>

lemmas step_defs = stop_fields Let_def max_calls_def

lemma inv_start: "start Granted now (AudioRecorder m mime) = Inr r \<Longrightarrow> session_inv r"
  by (auto simp: start_def AudioRecorder_def session_inv_def acquires_def releases_def Let_def)

lemma inv_step: "session_inv r \<Longrightarrow> session_inv (step r e)"
  by (cases e) (auto simp: session_inv_def acquires_def releases_def stop_fields Let_def
      split: option.splits caller.splits)

lemma inv_foldl: "session_inv r \<Longrightarrow> session_inv (foldl step r evs)"
  by (induction evs arbitrary: r) (auto simp: inv_step)

lemma session_granted:
  "\<exists>r. start Granted now (AudioRecorder m mime) = Inr r
     \<and> session Granted now evs (AudioRecorder m mime) = foldl step r evs \<and> session_inv r"
  using inv_start[of now m mime] by (simp add: session_def after_start_def start_def Let_def)

lemma inv_session: "session_inv (session Granted now evs (AudioRecorder m mime))"
  using session_granted[of now m mime evs] inv_foldl by auto

lemma ended_after_stop:
  "session_inv r \<Longrightarrow> ended (step (step r StopCall) StopEvent)"
  by (auto simp: session_inv_def ended_def stop_fields Let_def
      split: option.splits caller.splits)

lemma ended_after_tick:
  "session_inv r \<Longrightarrow> elapsed_at r t \<ge> maxDurationMs r \<Longrightarrow> ended (step (step r (Tick t)) StopEvent)"
  by (auto simp: session_inv_def ended_def stop_fields Let_def
      split: option.splits caller.splits)

lemma inv_balanced:
  assumes "session_inv r" and "ended r"
  shows "releases r = 1 \<and> count_list (effects r) CtxClose = 1"
proof -
  from assms(1) obtain s where s: "mediaRecorder r = Some s"
    by (auto simp: session_inv_def)
  with assms(2) have "s = MRInactive" "\<not> stop_queued r"
    by (cases s; simp add: ended_def)+
  with s assms(1) have "\<not> stream r" "\<not> audioCtx r"
    by (auto simp: session_inv_def)
  with assms(1) show ?thesis
    by (simp add: session_inv_def)
qed



subsection \<open>The phases of a session\<close>

lemma step_consts: "startTime (step r e) = startTime r \<and> maxDurationMs (step r e) = maxDurationMs r"
  by (cases e) (auto simp: step_defs split: option.splits caller.splits)

lemma elapsed_step: "elapsed_at (step r e) t = elapsed_at r t"
  by (simp add: elapsed_at_def step_consts)

lemma at_most_once_step: "at_most_once r \<Longrightarrow> at_most_once (step r e)"
  by (cases e) (auto simp: at_most_once_def step_defs split: option.splits caller.splits)

lemma at_most_once_foldl: "at_most_once r \<Longrightarrow> at_most_once (foldl step r evs)"
  by (induction evs arbitrary: r) (auto simp: at_most_once_step)

lemma silent_step: "silent r \<Longrightarrow> silent (step r e)"
  by (cases e) (auto simp: silent_def step_defs split: option.splits caller.splits)

lemma silent_foldl: "silent r \<Longrightarrow> silent (foldl step r evs)"
  by (induction evs arbitrary: r) (auto simp: silent_step)

lemma auto_done_step: "auto_done r \<Longrightarrow> auto_done (step r e)"
  by (cases e) (auto simp: auto_done_def step_defs split: option.splits caller.splits)

lemma auto_done_foldl: "auto_done r \<Longrightarrow> auto_done (foldl step r evs)"
  by (induction evs arbitrary: r) (auto simp: auto_done_step)

lemma auto_pending_step:
  "auto_pending r \<Longrightarrow> (if e = StopEvent then auto_done (step r e) else auto_pending (step r e))"
  by (cases e) (auto simp: auto_pending_def auto_done_def step_defs split: option.splits caller.splits)

lemma auto_pending_foldl:
  "auto_pending r \<Longrightarrow> max_calls (foldl step r evs) = (if StopEvent \<in> set evs then 1 else 0)"
proof (induction evs arbitrary: r)
  case Nil
  then show ?case by (simp add: auto_pending_def)
next
  case (Cons e evs)
  show ?case
  proof (cases "e = StopEvent")
    case True
    with Cons.prems have "auto_done (step r e)" using auto_pending_step[of r e] by simp
    then have "auto_done (foldl step (step r e) evs)" by (rule auto_done_foldl)
    with True show ?thesis by (simp add: auto_done_def)
  next
    case False
    with Cons.prems have "auto_pending (step r e)" using auto_pending_step[of r e] by simp
    from Cons.IH[OF this] False show ?thesis by simp
  qed
qed

lemma quiet_step:
  "quiet r \<Longrightarrow> (\<And>t. e = Tick t \<Longrightarrow> elapsed_at r t < maxDurationMs r) \<Longrightarrow> quiet (step r e)"
  by (cases e) (auto simp: quiet_def step_defs split: option.splits caller.splits)

lemma quiet_foldl:
  "quiet r \<Longrightarrow> \<forall>t. Tick t \<in> set evs \<longrightarrow> elapsed_at r t < maxDurationMs r \<Longrightarrow> quiet (foldl step r evs)"
proof (induction evs arbitrary: r)
  case Nil then show ?case by simp
next
  case (Cons e evs)
  have "quiet (step r e)" using Cons.prems by (intro quiet_step) auto
  moreover have "\<forall>t. Tick t \<in> set evs \<longrightarrow> elapsed_at (step r e) t < maxDurationMs (step r e)"
    using Cons.prems(2) by (simp add: elapsed_step step_consts)
  ultimately show ?case using Cons.IH by simp
qed

lemma quiet_stop: "quiet r \<Longrightarrow> silent (step r StopCall)"
  by (auto simp: quiet_def silent_def step_defs split: option.splits caller.splits)

lemma capturing_step:
  "capturing r \<Longrightarrow> e \<noteq> StopCall \<Longrightarrow> (\<And>t. e = Tick t \<Longrightarrow> elapsed_at r t < maxDurationMs r)
    \<Longrightarrow> capturing (step r e)"
  by (cases e) (auto simp: capturing_def step_defs split: option.splits caller.splits)

lemma capturing_foldl:
  "capturing r \<Longrightarrow> StopCall \<notin> set evs
    \<Longrightarrow> \<forall>t. Tick t \<in> set evs \<longrightarrow> elapsed_at r t < maxDurationMs r \<Longrightarrow> capturing (foldl step r evs)"
proof (induction evs arbitrary: r)
  case Nil then show ?case by simp
next
  case (Cons e evs)
  have "capturing (step r e)" using Cons.prems by (intro capturing_step) auto
  moreover have "\<forall>t. Tick t \<in> set evs \<longrightarrow> elapsed_at (step r e) t < maxDurationMs (step r e)"
    using Cons.prems(3) by (simp add: elapsed_step step_consts)
  ultimately show ?case using Cons.IH Cons.prems(2) by simp
qed

lemma capturing_tick:
  "capturing r \<Longrightarrow> elapsed_at r t \<ge> maxDurationMs r \<Longrightarrow> auto_pending (step r (Tick t))"
  by (auto simp: capturing_def auto_pending_def step_defs)

lemma started_facts:
  "start Granted now (AudioRecorder m mime) = Inr r \<Longrightarrow>
     capturing r \<and> quiet r \<and> at_most_once r \<and> startTime r = Some now
     \<and> maxDurationMs r = maxDurationMs (AudioRecorder m mime)"
  by (auto simp: start_def AudioRecorder_def capturing_def quiet_def at_most_once_def step_defs)

lemma after_start_at_most_once: "at_most_once (after_start dev now (AudioRecorder m mime))"
  by (cases dev)
     (simp_all add: after_start_def start_def AudioRecorder_def at_most_once_def max_calls_def Let_def)

lemma session_const: "startTime (session Granted now evs r0) = Some now
   \<and> maxDurationMs (session Granted now evs r0) = maxDurationMs r0"
proof (induction evs rule: rev_induct)
  case Nil
  then show ?case by (simp add: session_def after_start_def start_def Let_def)
next
  case (snoc e evs)
  have "session Granted now (evs @ [e]) r0 = step (session Granted now evs r0) e"
    by (simp add: session_def after_start_def start_def Let_def)
  with snoc show ?case by (simp add: step_consts)
qed

subsection \<open>The claims\<close>

text \<open>
  On the three exit paths that \<open>start()\<close> itself survives or never enters, the handles
  balance. When \<open>getUserMedia\<close> rejects nothing is acquired and nothing released, whatever
  follows. When \<open>start()\<close> returns, the stream is acquired once and released at most
  once; once the session has ended the release and the acquisition balance, and so do
  the opening and closing of the audio context; and the session ends after an explicit
  stop and after the timer callback that sees the maximum duration reached, as soon as
  the media recorder has delivered its stop event.
\<close>

lemma untouched_step: "untouched r \<Longrightarrow> untouched (step r e)"
  by (cases e) (auto simp: untouched_def acquires_def releases_def stop_fields Let_def
      split: option.splits caller.splits)

lemma untouched_foldl: "untouched r \<Longrightarrow> untouched (foldl step r evs)"
  by (induction evs arbitrary: r) (auto simp: untouched_step)

lemma released_on_stop_paths:
  "acquires (session Denied now evs (AudioRecorder m mime)) = 0
    \<and> releases (session Denied now evs (AudioRecorder m mime)) = 0
    \<and> acquires (session Granted now evs (AudioRecorder m mime)) = 1
    \<and> releases (session Granted now evs (AudioRecorder m mime)) \<le> 1
    \<and> (ended (session Granted now evs (AudioRecorder m mime)) \<longrightarrow>
          releases (session Granted now evs (AudioRecorder m mime))
            = acquires (session Granted now evs (AudioRecorder m mime))
        \<and> count_list (effects (session Granted now evs (AudioRecorder m mime))) CtxClose
            = count_list (effects (session Granted now evs (AudioRecorder m mime))) CtxOpen)
    \<and> ended (session Granted now (evs @ [StopCall, StopEvent]) (AudioRecorder m mime))
    \<and> (t - now \<ge> maxDurationMs (AudioRecorder m mime) \<longrightarrow>
          ended (session Granted now (evs @ [Tick t, StopEvent]) (AudioRecorder m mime)))"
proof -
  define r0 where "r0 = AudioRecorder m mime"
  let ?r = "session Granted now evs r0"
  have I: "session_inv ?r" unfolding r0_def by (rule inv_session)
  have "untouched (after_start Denied now r0)"
    by (simp add: after_start_def start_def r0_def AudioRecorder_def untouched_def acquires_def
        releases_def)
  then have "untouched (session Denied now evs r0)"
    unfolding session_def by (rule untouched_foldl)
  then have D: "acquires (session Denied now evs r0) = 0 \<and> releases (session Denied now evs r0) = 0"
    by (simp add: untouched_def)
  have A: "acquires ?r = 1" "releases ?r \<le> 1" "count_list (effects ?r) CtxOpen = 1"
    using I by (auto simp: session_inv_def)
  have B: "ended ?r \<longrightarrow> releases ?r = 1 \<and> count_list (effects ?r) CtxClose = 1"
    using inv_balanced[OF I] by blast
  have S: "session Granted now (evs @ [StopCall, StopEvent]) r0 = step (step ?r StopCall) StopEvent"
    by (simp add: session_def)
  have T: "session Granted now (evs @ [Tick t, StopEvent]) r0 = step (step ?r (Tick t)) StopEvent"
    by (simp add: session_def)
  have E1: "ended (session Granted now (evs @ [StopCall, StopEvent]) r0)"
    unfolding S by (rule ended_after_stop[OF I])
  have E2: "t - now \<ge> maxDurationMs r0 \<longrightarrow> ended (session Granted now (evs @ [Tick t, StopEvent]) r0)"
    unfolding T using ended_after_tick[OF I, of t] session_const[of now evs r0]
    by (simp add: elapsed_at_def)
  show ?thesis using D A B E1 E2 unfolding r0_def by simp
qed

lemma stranded_step: "stranded r \<Longrightarrow> e \<noteq> StopCall \<Longrightarrow> stranded (step r e)"
  by (cases e) (auto simp: stranded_def acquires_def releases_def Let_def)

lemma stranded_foldl: "stranded r \<Longrightarrow> stranded (foldl step r (filter (\<lambda>e. e \<noteq> StopCall) evs))"
  by (induction evs arbitrary: r) (auto simp: stranded_step)

lemma stranded_start:
  "stranded (after_start ContextFails now (AudioRecorder m mime))"
  "stranded (after_start RecorderFails now (AudioRecorder m mime))"
  "stranded (after_start StartFails now (AudioRecorder m mime))"
  by (simp_all add: after_start_def start_def AudioRecorder_def stranded_def acquires_def
      releases_def Let_def)

text \<open>
  C2. The claim is that in every capture session the device is released as often as it
  was acquired, on every exit path. \<open>start()\<close> has an exit path on which it is not: when
  \<open>getUserMedia\<close> has resolved and a later statement of \<open>start()\<close> throws (the audio
  context or the media recorder cannot be made, or the media recorder cannot be
  started), the stream is already assigned, and nothing stops its tracks. The session is
  over, with one acquisition and no release, and it stays so whatever the timer, the media
  recorder or the display do next: only a call of \<open>stop()\<close> would release the stream.
\<close>

theorem stream_leaked_when_start_throws:
  "acquires (session RecorderFails now (filter (\<lambda>e. e \<noteq> StopCall) evs) (AudioRecorder m mime)) = 1
   \<and> releases (session RecorderFails now (filter (\<lambda>e. e \<noteq> StopCall) evs) (AudioRecorder m mime)) = 0
   \<and> ended (session RecorderFails now (filter (\<lambda>e. e \<noteq> StopCall) evs) (AudioRecorder m mime))
   \<and> acquires (session ContextFails now (filter (\<lambda>e. e \<noteq> StopCall) evs) (AudioRecorder m mime)) = 1
   \<and> releases (session ContextFails now (filter (\<lambda>e. e \<noteq> StopCall) evs) (AudioRecorder m mime)) = 0
   \<and> ended (session ContextFails now (filter (\<lambda>e. e \<noteq> StopCall) evs) (AudioRecorder m mime))
   \<and> acquires (session StartFails now (filter (\<lambda>e. e \<noteq> StopCall) evs) (AudioRecorder m mime)) = 1
   \<and> releases (session StartFails now (filter (\<lambda>e. e \<noteq> StopCall) evs) (AudioRecorder m mime)) = 0
   \<and> ended (session StartFails now (filter (\<lambda>e. e \<noteq> StopCall) evs) (AudioRecorder m mime))
   \<and> start RecorderFails now (AudioRecorder m mime)
        = Inl (RuntimeFailure, after_start RecorderFails now (AudioRecorder m mime))"
proof -
  have s: "stranded (session dev now (filter (\<lambda>e. e \<noteq> StopCall) evs) (AudioRecorder m mime))"
    if "stranded (after_start dev now (AudioRecorder m mime))" for dev
    unfolding session_def using that by (rule stranded_foldl)
  have e: "acquires r = 1 \<and> releases r = 0 \<and> ended r" if "stranded r" for r
    using that by (simp add: stranded_def ended_def)
  have "start RecorderFails now (AudioRecorder m mime)
        = Inl (RuntimeFailure, after_start RecorderFails now (AudioRecorder m mime))"
    by (simp add: after_start_def start_def Let_def)
  with e[OF s[OF stranded_start(2)]] e[OF s[OF stranded_start(1)]] e[OF s[OF stranded_start(3)]]
  show ?thesis by simp
qed

text \<open>
  C3. In every capture session the max-duration callback is called at most once, and
  not at all as long as no timer callback has seen the elapsed time reach the maximum.
  When the recorder is stopped explicitly before any timer callback has seen the maximum
  reached, the callback is never called, whatever follows. When the first stop is the
  timer's, at the first timer callback that sees the elapsed time at or above the
  maximum, the callback is called exactly once, when the media recorder delivers its stop
  event.
\<close>

theorem max_callback_once:
  fixes m :: "int option" and mime :: string and now :: int
  defines "r0 \<equiv> AudioRecorder m mime"
  shows "max_calls (session dev now evs r0) \<le> 1
    \<and> ((\<forall>t. Tick t \<in> set evs \<longrightarrow> t - now < maxDurationMs r0) \<longrightarrow>
         max_calls (session Granted now evs r0) = 0)
    \<and> ((\<forall>t. Tick t \<in> set pre \<longrightarrow> t - now < maxDurationMs r0) \<longrightarrow>
         max_calls (session Granted now (pre @ StopCall # post) r0) = 0)
    \<and> ((\<forall>t. Tick t \<in> set pre \<longrightarrow> t - now < maxDurationMs r0) \<and> StopCall \<notin> set pre
         \<and> maxDurationMs r0 \<le> t - now \<longrightarrow>
         max_calls (session Granted now (pre @ Tick t # post) r0)
           = (if StopEvent \<in> set post then 1 else 0))"
proof -
  obtain r where r: "start Granted now r0 = Inr r"
    by (simp add: start_def Let_def)
  note f = started_facts[OF r[unfolded r0_def], folded r0_def]
  have el: "elapsed_at r t = t - now" for t using f by (simp add: elapsed_at_def)
  have S: "session Granted now evs r0 = foldl step r evs" for evs
    using r by (simp add: session_def after_start_def)
  have A: "max_calls (session dev now evs r0) \<le> 1"
  proof -
    have "at_most_once (after_start dev now r0)"
      unfolding r0_def by (rule after_start_at_most_once)
    then have "at_most_once (session dev now evs r0)"
      unfolding session_def by (rule at_most_once_foldl)
    then show ?thesis by (simp add: at_most_once_def)
  qed
  have N: "max_calls (session Granted now evs r0) = 0"
    if "\<forall>t. Tick t \<in> set evs \<longrightarrow> t - now < maxDurationMs r0"
  proof -
    have "quiet (foldl step r evs)" using that f by (intro quiet_foldl) (simp_all add: el)
    then show ?thesis by (simp add: S quiet_def)
  qed
  have B: "max_calls (session Granted now (pre @ StopCall # post) r0) = 0"
    if "\<forall>t. Tick t \<in> set pre \<longrightarrow> t - now < maxDurationMs r0"
  proof -
    have "quiet (foldl step r pre)" using that f by (intro quiet_foldl) (simp_all add: el)
    then have "silent (step (foldl step r pre) StopCall)" by (rule quiet_stop)
    then have "silent (foldl step (step (foldl step r pre) StopCall) post)" by (rule silent_foldl)
    then show ?thesis by (simp add: S silent_def)
  qed
  have C: "max_calls (session Granted now (pre @ Tick t # post) r0)
           = (if StopEvent \<in> set post then 1 else 0)"
    if "\<forall>t. Tick t \<in> set pre \<longrightarrow> t - now < maxDurationMs r0" "StopCall \<notin> set pre"
      "maxDurationMs r0 \<le> t - now"
  proof -
    let ?r1 = "foldl step r pre"
    have c: "capturing ?r1" using that f by (intro capturing_foldl) (simp_all add: el)
    have "startTime ?r1 = startTime r \<and> maxDurationMs ?r1 = maxDurationMs r"
      by (induction pre rule: rev_induct) (simp_all add: step_consts)
    then have "elapsed_at ?r1 t \<ge> maxDurationMs ?r1" using that(3) f by (simp add: elapsed_at_def)
    with c have "auto_pending (step ?r1 (Tick t))" by (rule capturing_tick)
    from auto_pending_foldl[OF this, of post] show ?thesis by (simp add: S)
  qed
  show ?thesis using A N B C by blast
qed

text \<open>
  A maximum of 30 000 ms, started at time 1000: stopped by hand after the timer callback
  at 29 900 ms, and left to the timer callback at 30 000 ms.
\<close>

theorem max_callback_once_witness:
  "(let r0 = AudioRecorder (Some 30000) ''audio/webm'';
        early = session Granted 1000 ([Tick 30900] @ StopCall # [Tick 31000, StopEvent, Tick 31100]) r0;
        late = session Granted 1000 ([Tick 30900] @ Tick 31000 # [StopEvent, Tick 31100, StopCall, StopEvent]) r0
    in max_calls early = 0 \<and> max_calls late = 1)"
  using max_callback_once [where m = "Some 30000" and mime = "''audio/webm''" and now = 1000
      and pre = "[Tick 30900]" and post = "[Tick 31000, StopEvent, Tick 31100]" and t = 31000
      and evs = "[]" and dev = Granted]
    max_callback_once [where m = "Some 30000" and mime = "''audio/webm''" and now = 1000
      and pre = "[Tick 30900]" and post = "[StopEvent, Tick 31100, StopCall, StopEvent]" and t = 31000
      and evs = "[]" and dev = Granted]
  by (simp add: AudioRecorder_def Let_def)

lemma stop_settled:
  assumes "\<not> timerInterval r" "mediaRecorder r \<noteq> Some MRRecording" "\<not> stream r" "\<not> audioCtx r"
  shows "stop Explicit r = r\<lparr>effects := effects r @ [Resolved None]\<rparr>"
proof -
  from assms(2) have "mediaRecorder r = None \<or> mediaRecorder r = Some MRInactive"
    by (cases "mediaRecorder r") (auto intro: mr_state.exhaust)
  with assms show ?thesis
    by (auto simp: stop_def cleanup_def resolve_def emit_def Let_def)
qed

lemma ended_settled:
  assumes "session_inv r" "ended r"
  shows "\<not> timerInterval r \<and> mediaRecorder r \<noteq> Some MRRecording \<and> \<not> stream r \<and> \<not> audioCtx r"
proof -
  from assms(1) obtain s where s: "mediaRecorder r = Some s"
    by (auto simp: session_inv_def)
  with assms(2) have "s = MRInactive" "\<not> stop_queued r"
    by (cases s; simp add: ended_def)+
  with s assms(1) show ?thesis
    by (auto simp: session_inv_def)
qed

text \<open>
  C8. \<open>stop()\<close> is idempotent. On a recorder that was never started it resolves with
  null and changes nothing. Whenever no capture is active it resolves with null, after
  releasing at most what was still held. After a successful stop a second \<open>stop()\<close>
  resolves with null and leaves the recorder as it was.
\<close>

theorem stop_idempotent:
  "stop Explicit (AudioRecorder m mime) = (AudioRecorder m mime)\<lparr>effects := [Resolved None]\<rparr>
   \<and> (mediaRecorder r \<noteq> Some MRRecording \<longrightarrow>
        (\<exists>es. effects (stop Explicit r) = effects r @ es @ [Resolved None]
           \<and> set es \<subseteq> {Release, CtxClose})
        \<and> mediaRecorder (stop Explicit r) = mediaRecorder r)
   \<and> stop Explicit (session Granted now (evs @ [StopCall, StopEvent]) (AudioRecorder m mime))
      = (session Granted now (evs @ [StopCall, StopEvent]) (AudioRecorder m mime))
          \<lparr>effects := effects (session Granted now (evs @ [StopCall, StopEvent])
                                 (AudioRecorder m mime)) @ [Resolved None]\<rparr>"
proof -
  have A: "stop Explicit (AudioRecorder m mime) = (AudioRecorder m mime)\<lparr>effects := [Resolved None]\<rparr>"
    using stop_settled[of "AudioRecorder m mime"] by (simp add: AudioRecorder_def)
  have B: "(\<exists>es. effects (stop Explicit r) = effects r @ es @ [Resolved None]
           \<and> set es \<subseteq> {Release, CtxClose})
        \<and> mediaRecorder (stop Explicit r) = mediaRecorder r"
    if n: "mediaRecorder r \<noteq> Some MRRecording"
  proof -
    from n have m: "mediaRecorder r = None \<or> mediaRecorder r = Some MRInactive"
      by (cases "mediaRecorder r") (auto intro: mr_state.exhaust)
    have "effects (stop Explicit r) = effects r
        @ ((if stream r then [Release] else []) @ (if audioCtx r then [CtxClose] else []))
        @ [Resolved None]"
      using n by (simp add: stop_fields)
    moreover have "set ((if stream r then [Release] else []) @ (if audioCtx r then [CtxClose] else []))
        \<subseteq> {Release, CtxClose}" by auto
    ultimately have "\<exists>es. effects (stop Explicit r) = effects r @ es @ [Resolved None]
           \<and> set es \<subseteq> {Release, CtxClose}" by blast
    moreover have "mediaRecorder (stop Explicit r) = mediaRecorder r"
      using m by (auto simp: stop_fields)
    ultimately show ?thesis by blast
  qed
  let ?r1 = "session Granted now (evs @ [StopCall, StopEvent]) (AudioRecorder m mime)"
  have "ended ?r1"
    using ended_after_stop[OF inv_session[of now evs m mime]] by (simp add: session_def after_start_def start_def Let_def)
  from ended_settled[OF inv_session this]
  have C: "stop Explicit ?r1 = ?r1\<lparr>effects := effects ?r1 @ [Resolved None]\<rparr>"
    by (intro stop_settled) simp_all
  show ?thesis using A B C by blast
qed

text \<open>A session stopped by hand, then stopped twice more.\<close>

theorem stop_idempotent_witness:
  "(let r1 = session Granted 1000 [Tick 1100, DataAvailable 512, StopCall, StopEvent]
              (AudioRecorder (Some 30000) ''audio/webm'')
    in effects r1 = [Acquire, CtxOpen, Waveform, DurationUpdate 100, Release, CtxClose,
          Resolved (Some \<lparr>blob_type = ''audio/webm'', blob_size = 512\<rparr>)]
     \<and> effects (stop Explicit r1) = effects r1 @ [Resolved None]
     \<and> effects (stop Explicit (stop Explicit r1)) = effects r1 @ [Resolved None, Resolved None]
     \<and> mediaRecorder (stop Explicit r1) = Some MRInactive)"
  using stop_idempotent [where m = "Some 30000" and mime = "''audio/webm''" and now = 1000
        and evs = "[Tick 1100, DataAvailable 512]"
        and r = "session Granted 1000 [Tick 1100, DataAvailable 512, StopCall, StopEvent]
              (AudioRecorder (Some 30000) ''audio/webm'')"]
  by (simp add: session_def after_start_def start_def Let_def AudioRecorder_def stop_def cleanup_def resolve_def
      emit_def drawLoop_def final_blob_def elapsed_at_def Let_def)


section \<open>The renderer: what is escaped\<close>

text \<open>
  C4. The claim is that every string of the analysis service is HTML-escaped where the
  renderer inserts it into markup. The raga name is (and so are the summary values), but
  the raga number, the arohana and avarohana symbols and the gamaka type are inserted as
  they are: for a candidate whose name is \<open><u>\<close> and whose scales hold \<open><b>\<close> and
  \<open><i>\<close>, and for a gamaka type \<open><img src=x>\<close>, the markup assigned to \<open>innerHTML\<close> holds
  the name escaped and the other three as tags.
\<close>

theorem markup_inserted_raw:
  \<open>renderRagas rt
      [\<lparr>raga_name = ''<u>'', raga_number = ''15'', raga_confidence = 1/2,
        arohana = [''<b>'', ''R''], avarohana = [''<i>'']\<rparr>] (Elem ''raga-results'' [] [])
    = Elem ''raga-results'' []
        [Elem ''raga-candidate''
          (''<span class="raga-rank raga-rank--1">1</span>'' @
           ''<div><span class="raga-name">&lt;u&gt;</span>'' @
           '' <span class="raga-number">Melakarta 15</span></div>'' @
           ''<div class="confidence-bar"><div class="confidence-fill" style="width:0%"'' @
           '' data-target-width="'' @ toFixed rt 0 50 @ ''%"></div></div>'' @
           ''<span class="confidence-pct">'' @ toFixed rt 0 50 @ ''%</span>'' @
           ''<div class="raga-scale">'' @ uarr @ '' <b> R  |  '' @ darr @ '' <i></div>'') []]
   \<and> renderGamakas [\<lparr>gamaka_type = ''<img src=x>''\<rparr>, \<lparr>gamaka_type = ''jaru''\<rparr>,
        \<lparr>gamaka_type = ''<img src=x>''\<rparr>] (Elem ''gamaka-results'' [] [])
    = Elem ''gamaka-results'' []
        [Elem ''gamaka-row'' []
          [Elem ''gamaka-item''
             (''<span class="gamaka-dot" style="background:#6b7394; box-shadow: 0 0 8px #6b7394"></span>'' @
              ''<div class="gamaka-info"><span class="gamaka-name"><img src=x></span>'' @
              ''<span class="gamaka-count">2 segments</span></div>'') [],
           Elem ''gamaka-item''
             (''<span class="gamaka-dot" style="background:#66bb6a; box-shadow: 0 0 8px #66bb6a"></span>'' @
              ''<div class="gamaka-info"><span class="gamaka-name">Jaru</span>'' @
              ''<span class="gamaka-count">1 segment</span></div>'') []]]
   \<and> esc ''<b>'' = ''&lt;b&gt;'' \<and> esc ''<img src=x>'' = ''&lt;img src=x&gt;''\<close>
  by (simp add: renderRagas_def ragaDiv_def renderGamakas_def gamakaItem_def GAMAKA_COLORS_def
      entries_def array_index_def digit_val_def
      esc1_def showNat.simps digit_char_def toUpperCase_def upper_char_def Let_def)

section \<open>The renderer: pitch contour\<close>

subsection \<open>Commands in sequence\<close>

lemma draw_append: "draw st (a @ b) = draw st a @ draw (run st a) b"
  by (induction a arbitrary: st) (simp_all add: run_def)

lemma run_append: "run st (a @ b) = run (run st a) b"
  by (simp add: run_def)

lemma run_Nil [simp]: "run st [] = st"
  by (simp add: run_def)

lemma run_Cons [simp]: "run st (c # cs) = run (apply_cmd c st) cs"
  by (simp add: run_def)

lemma strokes_with_append [simp]:
  "strokes_with s (a @ b) = strokes_with s a @ strokes_with s b"
  by (induction s a rule: strokes_with.induct) simp_all

lemma fills_of_append [simp]: "fills_of (a @ b) = fills_of a @ fills_of b"
  by (induction a rule: fills_of.induct) simp_all

lemma texts_append [simp]: "texts (a @ b) = texts a @ texts b"
proof (induction a)
  case (Cons c cs)
  then show ?case by (cases c) (simp_all split: option.splits)
qed simp

lemma forLoop_upt: "forLoop i n body = concat (map body [i..<Suc n])"
proof (induction i n body rule: forLoop.induct)
  case (1 i n body)
  show ?case
  proof (cases "i \<le> n")
    case True
    then have "[i..<Suc n] = i # [Suc i..<Suc n]" by (simp add: upt_conv_Cons)
    with True 1 show ?thesis by (subst forLoop.simps) simp
  next
    case False
    then show ?thesis by (subst forLoop.simps) simp
  qed
qed

subsection \<open>The two passes over the frames\<close>

lemma xScale_finite: "tMax sc \<noteq> tMin sc \<Longrightarrow> xScale sc ms = Some (px sc ms)"
  by (simp add: xScale_def js_div_def px_def)

lemma yScale_finite: "fMax sc \<noteq> fMin sc \<Longrightarrow> yScale sc hz = Some (py sc hz)"
  by (simp add: yScale_def js_div_def py_def)

lemma is_break_iff: "is_break f \<longleftrightarrow> (frequency_hz f \<le> 0 \<or> confidence f < 0.2)"
  by (simp add: is_break_def)

lemma lineLoop_run:
  assumes fin: "tMax sc \<noteq> tMin sc" "fMax sc \<noteq> fMin sc"
  shows "path st = P @ (if cur = [] then [] else [map (point_of sc) cur]) \<Longrightarrow>
         run st (lineLoop sc (cur \<noteq> []) fs)
           = st\<lparr>path := P @ map (map (point_of sc)) (runs_acc cur fs)\<rparr>"
proof (induction fs arbitrary: st cur P)
  case Nil
  then show ?case by simp
next
  case (Cons f fs)
  show ?case
  proof (cases "is_break f")
    case True
    have "run st (lineLoop sc (cur \<noteq> []) (f # fs)) = run st (lineLoop sc ([] \<noteq> ([]::frame list)) fs)"
      using True by (simp add: is_break_iff)
    also have "\<dots> = st\<lparr>path := (P @ (if cur = [] then [] else [map (point_of sc) cur]))
                 @ map (map (point_of sc)) (runs_acc [] fs)\<rparr>"
      by (rule Cons.IH) (simp add: Cons.prems)
    finally show ?thesis using True by simp
  next
    case False
    let ?p = "point_of sc f"
    show ?thesis
    proof (cases "cur = []")
      case True
      have "run st (lineLoop sc (cur \<noteq> []) (f # fs))
          = run (st\<lparr>path := P @ [[?p]]\<rparr>) (lineLoop sc ([f] \<noteq> []) fs)"
        using False True Cons.prems
        by (simp add: is_break_iff xScale_finite[OF fin(1)] yScale_finite[OF fin(2)] point_of_def)
      also have "\<dots> = (st\<lparr>path := P @ [[?p]]\<rparr>)\<lparr>path := P @ map (map (point_of sc)) (runs_acc [f] fs)\<rparr>"
        by (rule Cons.IH) simp
      finally show ?thesis using False True by simp
    next
      case ne: False
      have "run st (lineLoop sc (cur \<noteq> []) (f # fs))
          = run (st\<lparr>path := P @ [map (point_of sc) (cur @ [f])]\<rparr>) (lineLoop sc (cur @ [f] \<noteq> []) fs)"
        using False ne Cons.prems
        by (simp add: is_break_iff xScale_finite[OF fin(1)] yScale_finite[OF fin(2)] point_of_def)
      also have "\<dots> = (st\<lparr>path := P @ [map (point_of sc) (cur @ [f])]\<rparr>)
            \<lparr>path := P @ map (map (point_of sc)) (runs_acc (cur @ [f]) fs)\<rparr>"
        by (rule Cons.IH) simp
      finally show ?thesis using False ne by simp
    qed
  qed
qed

lemma lineLoop_draw: "draw st (lineLoop sc started fs) = []"
  by (induction fs arbitrary: st started) (simp_all add: Let_def)

lemma fillLoop_draw:
  assumes fin: "tMax sc \<noteq> tMin sc" "fMax sc \<noteq> fMin sc"
  shows "fillStyle st = c \<Longrightarrow>
         path st = (if cur = [] then []
                    else [(px sc (timestamp_ms (hd cur)), padding_top + plotH sc)
                          # map (point_of sc) cur]) \<Longrightarrow>
         (cur \<noteq> [] \<Longrightarrow> lastX = Some (px sc (timestamp_ms (last cur)))) \<Longrightarrow>
         draw st (fillLoop sc (cur \<noteq> []) lastX fs)
           = map (\<lambda>r. Filled c [shape_of sc r]) (runs_acc cur fs)"
proof (induction fs arbitrary: st cur lastX)
  case Nil
  then show ?case by (simp add: shape_of_def)
next
  case (Cons f fs)
  show ?case
  proof (cases "is_break f")
    case True
    show ?thesis
    proof (cases "cur = []")
      case True
      have "draw st (fillLoop sc (cur \<noteq> []) lastX (f # fs))
          = draw st (fillLoop sc ([] \<noteq> ([]::frame list)) lastX fs)"
        using \<open>is_break f\<close> True by (simp add: is_break_iff)
      also have "\<dots> = map (\<lambda>r. Filled c [shape_of sc r]) (runs_acc [] fs)"
        by (rule Cons.IH) (use Cons.prems True in simp_all)
      finally show ?thesis using \<open>is_break f\<close> True by simp
    next
      case False
      have "draw st (fillLoop sc (cur \<noteq> []) lastX (f # fs))
          = Filled c [shape_of sc cur]
            # draw (st\<lparr>path := []\<rparr>) (fillLoop sc ([] \<noteq> ([]::frame list)) lastX fs)"
        using \<open>is_break f\<close> False Cons.prems by (simp add: is_break_iff shape_of_def)
      also have "draw (st\<lparr>path := []\<rparr>) (fillLoop sc ([] \<noteq> ([]::frame list)) lastX fs)
          = map (\<lambda>r. Filled c [shape_of sc r]) (runs_acc [] fs)"
        by (rule Cons.IH) (use Cons.prems in simp_all)
      finally show ?thesis using \<open>is_break f\<close> False by simp
    qed
  next
    case False
    let ?x = "px sc (timestamp_ms f)"
    let ?b = "padding_top + plotH sc"
    show ?thesis
    proof (cases "cur = []")
      case True
      have "draw st (fillLoop sc (cur \<noteq> []) lastX (f # fs))
          = draw (st\<lparr>path := [[(?x, ?b), point_of sc f]]\<rparr>) (fillLoop sc ([f] \<noteq> []) (Some ?x) fs)"
        using False True Cons.prems
        by (simp add: is_break_iff xScale_finite[OF fin(1)] yScale_finite[OF fin(2)] point_of_def Let_def)
      also have "\<dots> = map (\<lambda>r. Filled c [shape_of sc r]) (runs_acc [f] fs)"
        by (rule Cons.IH) (use Cons.prems in simp_all)
      finally show ?thesis using False True by simp
    next
      case ne: False
      have "draw st (fillLoop sc (cur \<noteq> []) lastX (f # fs))
          = draw (st\<lparr>path := [(px sc (timestamp_ms (hd cur)), ?b) # map (point_of sc) (cur @ [f])]\<rparr>)
              (fillLoop sc (cur @ [f] \<noteq> []) (Some ?x) fs)"
        using False ne Cons.prems
        by (simp add: is_break_iff xScale_finite[OF fin(1)] yScale_finite[OF fin(2)] point_of_def Let_def)
      also have "\<dots> = map (\<lambda>r. Filled c [shape_of sc r]) (runs_acc (cur @ [f]) fs)"
        by (rule Cons.IH) (use Cons.prems ne in simp_all)
      finally show ?thesis using False ne by simp
    qed
  qed
qed

lemma contourLine_draw:
  assumes "tMax sc \<noteq> tMin sc" "fMax sc \<noteq> fMin sc"
  shows "draw st (contourLine sc contour) = [Stroked ''#5cc8d4'' (map (map (point_of sc)) (runs contour))]"
proof -
  let ?st = "st\<lparr>strokeStyle := ''#5cc8d4'', path := []\<rparr>"
  have "run ?st (lineLoop sc ([] \<noteq> ([]::frame list)) contour)
      = ?st\<lparr>path := [] @ map (map (point_of sc)) (runs_acc [] contour)\<rparr>"
    by (rule lineLoop_run[OF assms]) simp
  then have r: "run ?st (lineLoop sc False contour)
      = ?st\<lparr>path := map (map (point_of sc)) (runs contour)\<rparr>"
    by (simp add: runs_def)
  show ?thesis
    by (simp add: contourLine_def draw_append lineLoop_draw r)
qed

lemma contourFill_draw:
  assumes "tMax sc \<noteq> tMin sc" "fMax sc \<noteq> fMin sc"
  shows "draw st (contourFill sc contour)
    = map (\<lambda>r. Filled ''rgba(92, 200, 212, 0.08)'' [shape_of sc r]) (runs contour)"
proof -
  let ?st = "st\<lparr>fillStyle := ''rgba(92, 200, 212, 0.08)'', path := []\<rparr>"
  have "draw ?st (fillLoop sc ([] \<noteq> ([]::frame list)) (Some 0) contour)
      = map (\<lambda>r. Filled ''rgba(92, 200, 212, 0.08)'' [shape_of sc r]) (runs_acc [] contour)"
    by (rule fillLoop_draw[OF assms]) simp_all
  then show ?thesis
    by (simp add: contourFill_def runs_def)
qed

subsection \<open>The other passes\<close>

lemma plain_append: "plain a \<Longrightarrow> plain b \<Longrightarrow> plain (a @ b)"
  by (simp add: plain_def draw_append)

lemma plain_concat: "(\<And>x. x \<in> set xs \<Longrightarrow> plain (f x)) \<Longrightarrow> plain (concat (map f xs))"
  by (induction xs) (simp_all add: plain_append, simp add: plain_def)

lemma plain_saLine: "plain (saLine rt sc sa)"
  by (cases "yScale sc sa") (simp_all add: plain_def saLine_def Let_def)

lemma plain_octaveLine: "plain (octaveLine sc hz)"
  by (cases "yScale sc hz") (simp_all add: plain_def octaveLine_def Let_def)

lemma plain_timeTick: "plain (timeTick rt sc i)"
  by (cases "xScale sc (tMin sc + (tMax sc - tMin sc) * (real i / real nTicks))")
     (simp_all add: plain_def timeTick_def Let_def)

lemma plain_freqTick: "plain (freqTick rt sc i)"
  by (simp add: plain_def freqTick_def Let_def)

lemma plain_timeAxis: "plain (timeAxis rt sc)"
  unfolding timeAxis_def forLoop_upt
  by (intro plain_append plain_concat plain_timeTick) (simp add: plain_def)

lemma plain_freqAxis: "plain (freqAxis rt sc)"
  unfolding freqAxis_def forLoop_upt
  by (intro plain_append plain_concat plain_freqTick) (simp add: plain_def)

lemma plainD:
  "plain cs \<Longrightarrow> strokes_with ''#5cc8d4'' (draw st cs) = [] \<and> fills_of (draw st cs) = []"
  by (simp add: plain_def)

subsection \<open>The frequency bounds are never degenerate\<close>

lemma fold_min_Min: "fold min xs (a::real) = Min (set (a # xs))"
  by (rule Min.set_eq_fold[symmetric])

lemma fold_max_Max: "fold max xs (a::real) = Max (set (a # xs))"
  by (rule Max.set_eq_fold[symmetric])

lemma bounds_of_voiced:
  assumes "voiced_of contour \<noteq> []"
  defines "fs \<equiv> map frequency_hz (voiced_of contour)"
  shows "fMin (scales_of contour cv) = Min (set fs) * 0.9"
    and "fMax (scales_of contour cv) = Max (set fs) * 1.1"
    and "0 < Min (set fs)" and "Min (set fs) \<le> Max (set fs)"
proof -
  from assms(1) have ne: "fs \<noteq> []" by (simp add: fs_def)
  then obtain a as where fs: "fs = a # as" by (cases fs) auto
  have "fMin (scales_of contour cv) = fold min as a * 0.9"
    using fs by (simp add: scales_of_def Let_def fs_def[symmetric])
  then show "fMin (scales_of contour cv) = Min (set fs) * 0.9"
    unfolding fs fold_min_Min .
  have "fMax (scales_of contour cv) = fold max as a * 1.1"
    using fs by (simp add: scales_of_def Let_def fs_def[symmetric])
  then show "fMax (scales_of contour cv) = Max (set fs) * 1.1"
    unfolding fs fold_max_Max .
  have pos: "\<forall>x \<in> set fs. 0 < x" by (auto simp: fs_def voiced_of_def)
  have "Min (set fs) \<in> set fs" using ne by (intro Min_in) auto
  with pos show "0 < Min (set fs)" by blast
  have "Min (set fs) \<le> a" "a \<le> Max (set fs)" by (simp_all add: fs)
  then show "Min (set fs) \<le> Max (set fs)" by simp
qed

lemma fMax_neq_fMin:
  assumes "voiced_of contour \<noteq> []"
  shows "fMax (scales_of contour cv) \<noteq> fMin (scales_of contour cv)"
  using bounds_of_voiced(1,2)[OF assms, of cv] bounds_of_voiced(3,4)[OF assms] by simp

lemma tMin_tMax: "tMin (scales_of contour cv) = timestamp_ms (hd contour)"
  "tMax (scales_of contour cv) = timestamp_ms (last contour)"
  by (simp_all add: scales_of_def Let_def)

subsection \<open>Runs\<close>

lemma runs_acc_voiced:
  "\<forall>f \<in> set a. \<not> is_break f \<Longrightarrow> runs_acc cur (a @ rest) = runs_acc (cur @ a) rest"
  by (induction a arbitrary: cur) simp_all

lemma runs_acc_gap:
  "b \<noteq> [] \<Longrightarrow> \<forall>f \<in> set b. is_break f \<Longrightarrow>
   runs_acc cur (b @ rest) = (if cur = [] then [] else [cur]) @ runs_acc [] rest"
proof (induction b arbitrary: cur)
  case Nil
  then show ?case by simp
next
  case (Cons f b)
  show ?case
  proof (cases "b = []")
    case True
    with Cons.prems show ?thesis by simp
  next
    case False
    with Cons.prems Cons.IH[of "[]"] show ?thesis by simp
  qed
qed

lemma voiced_not_break: "is_voiced f \<Longrightarrow> \<not> is_break f"
  by (simp add: is_voiced_def is_break_def)

lemma runs_gap:
  assumes "a \<noteq> []" "b \<noteq> []" "c \<noteq> []"
    and "\<forall>f \<in> set a \<union> set c. is_voiced f" and "\<forall>f \<in> set b. confidence f < 0.2"
  shows "runs (a @ b @ c) = [a, c]"
proof -
  have v: "\<forall>f \<in> set a. \<not> is_break f" "\<forall>f \<in> set c. \<not> is_break f"
    using assms(4) voiced_not_break by blast+
  have g: "\<forall>f \<in> set b. is_break f" using assms(5) by (simp add: is_break_def)
  have "runs (a @ b @ c) = runs_acc a (b @ c)"
    using runs_acc_voiced[OF v(1), of "[]" "b @ c"] by (simp add: runs_def)
  also have "\<dots> = [a] @ runs_acc [] (c @ [])"
    using runs_acc_gap[OF assms(2) g, of a c] assms(1) by simp
  also have "runs_acc [] (c @ []) = runs_acc c []"
    using runs_acc_voiced[OF v(2), of "[]" "[]"] by simp
  finally show ?thesis using assms(3) by simp
qed

lemma concat_runs_acc: "concat (runs_acc cur fs) = cur @ filter (\<lambda>f. \<not> is_break f) fs"
  by (induction fs arbitrary: cur) simp_all

lemma runs_acc_members:
  "r \<in> set (runs_acc cur fs) \<Longrightarrow> \<forall>f \<in> set cur. \<not> is_break f \<Longrightarrow>
   r \<noteq> [] \<and> sublist r (cur @ fs) \<and> (\<forall>f \<in> set r. \<not> is_break f)"
proof (induction fs arbitrary: cur)
  case Nil
  then show ?case by (auto split: if_splits)
next
  case (Cons f fs)
  show ?case
  proof (cases "is_break f")
    case True
    with Cons.prems(1) consider "cur \<noteq> []" "r = cur" | "r \<in> set (runs_acc [] fs)"
      by (auto split: if_splits)
    then show ?thesis
    proof cases
      case 1
      with Cons.prems(2) show ?thesis by auto
    next
      case 2
      from Cons.IH[OF this] have "r \<noteq> []" "sublist r fs" "\<forall>f \<in> set r. \<not> is_break f"
        by simp_all
      moreover from \<open>sublist r fs\<close> obtain ps ss where "fs = ps @ r @ ss"
        by (auto simp: sublist_def)
      then have "cur @ f # fs = (cur @ f # ps) @ r @ ss" by simp
      then have "sublist r (cur @ f # fs)" unfolding sublist_def by blast
      ultimately show ?thesis by simp
    qed
  next
    case False
    with Cons.prems(1) have "r \<in> set (runs_acc (cur @ [f]) fs)" by simp
    from Cons.IH[OF this] False Cons.prems(2) show ?thesis by simp
  qed
qed

lemma runs_acc_prefix:
  "cur \<noteq> [] \<Longrightarrow> \<exists>r \<in> set (runs_acc cur fs). prefix cur r"
proof (induction fs arbitrary: cur)
  case Nil
  then show ?case by simp
next
  case (Cons f fs)
  show ?case
  proof (cases "is_break f")
    case True
    with Cons.prems show ?thesis by simp
  next
    case False
    from Cons.IH[of "cur @ [f]"] obtain r where "r \<in> set (runs_acc (cur @ [f]) fs)"
      "prefix (cur @ [f]) r" by auto
    with False show ?thesis by (auto dest: append_prefixD)
  qed
qed

lemma runs_acc_adjacent:
  "\<not> is_break g \<Longrightarrow> \<not> is_break f \<Longrightarrow>
   \<exists>r \<in> set (runs_acc cur (pre @ g # f # post)). sublist [g, f] r"
proof (induction pre arbitrary: cur)
  case Nil
  from runs_acc_prefix[of "cur @ [g, f]" post]
  obtain r where r: "r \<in> set (runs_acc (cur @ [g, f]) post)" "prefix (cur @ [g, f]) r" by auto
  then obtain s where "r = cur @ [g, f] @ s" by (auto simp: prefix_def)
  then have "sublist [g, f] r" by (auto simp: sublist_def)
  with r Nil show ?case by auto
next
  case (Cons p pre)
  then show ?case by (cases "is_break p") auto
qed

subsection \<open>The whole trace\<close>

lemma renderContour_voiced:
  assumes "voiced_of contour \<noteq> []"
  shows "renderContour rt contour sa cv =
    (clear_cmds cv @ saLine rt (scales_of contour cv) sa
       @ concat (map (octaveLine (scales_of contour cv)) [sa * 1.5, sa * 2]))
    @ contourLine (scales_of contour cv) contour
    @ contourFill (scales_of contour cv) contour
    @ (timeAxis rt (scales_of contour cv) @ freqAxis rt (scales_of contour cv))"
proof -
  from assms have "contour \<noteq> []" by (auto simp: voiced_of_def)
  with assms show ?thesis
    by (simp add: renderContour_def Let_def)
qed

lemma plain_before:
  "plain (clear_cmds cv @ saLine rt sc sa @ concat (map (octaveLine sc) [sa * 1.5, sa * 2]))"
  by (intro plain_append plain_concat plain_saLine plain_octaveLine)
     (simp add: plain_def clear_cmds_def)

lemma plain_after: "plain (timeAxis rt sc @ freqAxis rt sc)"
  by (intro plain_append plain_timeAxis plain_freqAxis)

lemma strokes_with_Filled [simp]: "strokes_with s (map (\<lambda>r. Filled c (g r)) rs) = []"
  by (induction rs) simp_all

lemma fills_of_Filled [simp]: "fills_of (map (\<lambda>r. Filled c (g r)) rs) = map g rs"
  by (induction rs) simp_all

lemma renderContour_draw:
  assumes v: "voiced_of contour \<noteq> []"
    and t: "timestamp_ms (hd contour) \<noteq> timestamp_ms (last contour)"
  shows "strokes_with ''#5cc8d4'' (draw st (renderContour rt contour sa cv))
           = [map (map (point_of (scales_of contour cv))) (runs contour)]"
    and "fills_of (draw st (renderContour rt contour sa cv))
           = map (\<lambda>r. [shape_of (scales_of contour cv) r]) (runs contour)"
proof -
  let ?sc = "scales_of contour cv"
  define before where
    "before = clear_cmds cv @ saLine rt ?sc sa @ concat (map (octaveLine ?sc) [sa * 1.5, sa * 2])"
  define after where "after = timeAxis rt ?sc @ freqAxis rt ?sc"
  have fin: "tMax ?sc \<noteq> tMin ?sc" "fMax ?sc \<noteq> fMin ?sc"
    using t fMax_neq_fMin[OF v] by (simp_all add: tMin_tMax)
  note L = contourLine_draw[OF fin] and F = contourFill_draw[OF fin]
  have B: "strokes_with ''#5cc8d4'' (draw s before) = []" "fills_of (draw s before) = []" for s
    using plainD[OF plain_before, of s cv rt ?sc sa] by (simp_all add: before_def)
  have A: "strokes_with ''#5cc8d4'' (draw s after) = []" "fills_of (draw s after) = []" for s
    using plainD[OF plain_after, of s rt ?sc] by (simp_all add: after_def)
  have eq: "renderContour rt contour sa cv
      = before @ contourLine ?sc contour @ contourFill ?sc contour @ after"
    unfolding before_def after_def by (rule renderContour_voiced[OF v])
  show "strokes_with ''#5cc8d4'' (draw st (renderContour rt contour sa cv))
           = [map (map (point_of ?sc)) (runs contour)]"
    by (simp add: eq draw_append L F B A)
  show "fills_of (draw st (renderContour rt contour sa cv))
           = map (\<lambda>r. [shape_of ?sc r]) (runs contour)"
    by (simp add: eq draw_append L F B A)
qed

lemma lineLoop_texts: "texts (lineLoop sc started fs) = []"
  by (induction fs arbitrary: started) (simp_all add: Let_def)

lemma fillLoop_texts: "texts (fillLoop sc started lastX fs) = []"
  by (induction fs arbitrary: started lastX) (simp_all add: Let_def)

lemma texts_concat: "texts (concat (map f xs)) = concat (map (\<lambda>x. texts (f x)) xs)"
  by (induction xs) simp_all

lemma renderContour_texts:
  assumes v: "voiced_of contour \<noteq> []"
  shows "texts (renderContour rt contour sa cv)
    = texts (saLine rt (scales_of contour cv) sa) @ texts (timeAxis rt (scales_of contour cv))
      @ texts (freqAxis rt (scales_of contour cv))"
  unfolding renderContour_voiced[OF v]
  by (simp add: clear_cmds_def contourLine_def contourFill_def lineLoop_texts fillLoop_texts
      octaveLine_def Let_def)

lemma tick_x:
  assumes "tMax sc \<noteq> tMin sc"
  shows "xScale sc (tMin sc + (tMax sc - tMin sc) * (real i / real nTicks))
     = Some (padding_left + (real i / 6) * plotW sc)"
proof -
  define d where "d = tMax sc - tMin sc"
  have "d \<noteq> 0" using assms by (simp add: d_def)
  then have "d * (real i / 6) / d = real i / 6" by (rule nonzero_mult_div_cancel_left)
  moreover have "tMin sc + d * (real i / 6) - tMin sc = d * (real i / 6)" by simp
  ultimately show ?thesis
    using \<open>d \<noteq> 0\<close> unfolding xScale_def js_div_def d_def[symmetric] nTicks_def by simp
qed

lemma tick_y:
  assumes "fMax sc \<noteq> fMin sc"
  shows "yScale sc (fMin sc + (fMax sc - fMin sc) * (real i / real nYTicks))
     = Some (padding_top + plotH sc - (real i / 4) * plotH sc)"
proof -
  define d where "d = fMax sc - fMin sc"
  have "d \<noteq> 0" using assms by (simp add: d_def)
  then have "d * (real i / 4) / d = real i / 4" by (rule nonzero_mult_div_cancel_left)
  moreover have "fMin sc + d * (real i / 4) - fMin sc = d * (real i / 4)" by simp
  ultimately show ?thesis
    using \<open>d \<noteq> 0\<close> unfolding yScale_def js_div_def d_def[symmetric] nYTicks_def by simp
qed

lemma timeTick_texts:
  assumes "tMax sc \<noteq> tMin sc"
  shows "texts (timeTick rt sc i)
    = [(toFixed rt 1 ((tMin sc + (tMax sc - tMin sc) * (real i / 6)) / 1000) @ ''s'',
        padding_left + (real i / 6) * plotW sc, H sc - 6)]"
  unfolding timeTick_def Let_def tick_x[OF assms] by (simp add: nTicks_def)

lemma freqTick_texts:
  assumes "fMax sc \<noteq> fMin sc"
  shows "texts (freqTick rt sc i)
    = [(toFixed rt 0 (fMin sc + (fMax sc - fMin sc) * (real i / 4)) @ '' Hz'',
        padding_left - 6, padding_top + plotH sc - (real i / 4) * plotH sc + 3)]"
  unfolding freqTick_def Let_def tick_y[OF assms] by (simp add: nYTicks_def)

lemma concat_singletons: "concat (map (\<lambda>x. [g x]) xs) = map g xs"
  by (induction xs) simp_all

lemma timeAxis_texts:
  assumes "tMax sc \<noteq> tMin sc"
  shows "texts (timeAxis rt sc) =
     map (\<lambda>i. (toFixed rt 1 ((tMin sc + (tMax sc - tMin sc) * (real i / 6)) / 1000) @ ''s'',
               padding_left + (real i / 6) * plotW sc, H sc - 6)) [0..<7]"
proof -
  have n: "[0..<Suc nTicks] = [0..<7]" by (simp add: nTicks_def)
  have "texts (timeAxis rt sc) = concat (map (\<lambda>i. texts (timeTick rt sc i)) [0..<7])"
    unfolding timeAxis_def forLoop_upt n by (simp add: texts_concat del: upt_Suc)
  then show ?thesis
    unfolding timeTick_texts[OF assms] concat_singletons .
qed

lemma freqAxis_texts:
  assumes "fMax sc \<noteq> fMin sc"
  shows "texts (freqAxis rt sc) =
     map (\<lambda>i. (toFixed rt 0 (fMin sc + (fMax sc - fMin sc) * (real i / 4)) @ '' Hz'',
               padding_left - 6, padding_top + plotH sc - (real i / 4) * plotH sc + 3))
       [0..<5]"
proof -
  have n: "[0..<Suc nYTicks] = [0..<5]" by (simp add: nYTicks_def)
  have "texts (freqAxis rt sc) = concat (map (\<lambda>i. texts (freqTick rt sc i)) [0..<5])"
    unfolding freqAxis_def forLoop_upt n by (simp add: texts_concat del: upt_Suc)
  then show ?thesis
    unfolding freqTick_texts[OF assms] concat_singletons .
qed

subsection \<open>The frame of every pass\<close>

lemma lineLoop_call:
  "f \<in> set fs \<Longrightarrow> \<not> is_break f \<Longrightarrow>
   MoveTo (xScale sc (timestamp_ms f)) (yScale sc (frequency_hz f)) \<in> set (lineLoop sc started fs)
   \<or> LineTo (xScale sc (timestamp_ms f)) (yScale sc (frequency_hz f)) \<in> set (lineLoop sc started fs)"
  by (induction fs arbitrary: started) (auto simp: is_break_iff Let_def)

lemma fillLoop_call:
  "f \<in> set fs \<Longrightarrow> \<not> is_break f \<Longrightarrow>
   LineTo (xScale sc (timestamp_ms f)) (yScale sc (frequency_hz f))
     \<in> set (fillLoop sc started lastX fs)"
  by (induction fs arbitrary: started lastX) (auto simp: is_break_iff Let_def)

lemma sublist_mapI: "sublist xs ys \<Longrightarrow> sublist (map h xs) (map h ys)"
  unfolding sublist_def by (metis map_append)

lemma sublist_shape: "sublist xs (map (point_of sc) r) \<Longrightarrow> sublist xs (shape_of sc r)"
proof -
  assume "sublist xs (map (point_of sc) r)"
  then obtain ps ss where "map (point_of sc) r = ps @ xs @ ss" by (auto simp: sublist_def)
  then have "shape_of sc r
      = ((px sc (timestamp_ms (hd r)), padding_top + plotH sc) # ps) @ xs
        @ (ss @ [(px sc (timestamp_ms (last r)), padding_top + plotH sc)])"
    by (simp add: shape_of_def)
  then show ?thesis unfolding sublist_def by blast
qed

subsection \<open>The calls that start a sub-path and that fill\<close>

lemma lineLoop_moves:
  "length (filter is_MoveTo (lineLoop sc (cur \<noteq> []) fs)) + (if cur = [] then 0 else 1)
     = length (runs_acc cur fs)"
proof (induction fs arbitrary: cur)
  case Nil
  then show ?case by simp
next
  case (Cons f fs)
  show ?case
  proof (cases "is_break f")
    case True
    with Cons.IH[of "[]"] show ?thesis by (simp add: is_break_iff)
  next
    case False
    with Cons.IH[of "cur @ [f]"] show ?thesis by (simp add: is_break_iff Let_def)
  qed
qed

lemma fillLoop_fills:
  "length (filter (\<lambda>c. c = Fill) (fillLoop sc (cur \<noteq> []) lastX fs)) = length (runs_acc cur fs)"
proof (induction fs arbitrary: cur lastX)
  case Nil
  then show ?case by simp
next
  case (Cons f fs)
  show ?case
  proof (cases "is_break f")
    case True
    with Cons.IH[of "[]"] show ?thesis by (simp add: is_break_iff)
  next
    case False
    with Cons.IH[of "cur @ [f]"] show ?thesis by (simp add: is_break_iff Let_def)
  qed
qed

lemma no_Fill_concat: "(\<And>x. x \<in> set xs \<Longrightarrow> filter (\<lambda>c. c = Fill) (f x) = [])
  \<Longrightarrow> filter (\<lambda>c. c = Fill) (concat (map f xs)) = []"
  by (induction xs) simp_all

lemma lineLoop_no_Fill: "filter (\<lambda>c. c = Fill) (lineLoop sc started fs) = []"
  by (induction fs arbitrary: started) (simp_all add: Let_def)

lemma contour_calls:
  assumes "voiced_of contour \<noteq> []"
  shows "length (filter is_MoveTo (contourLine (scales_of contour cv) contour)) = length (runs contour)"
    and "length (filter (\<lambda>c. c = Fill) (renderContour rt contour sa cv)) = length (runs contour)"
proof -
  let ?sc = "scales_of contour cv"
  show "length (filter is_MoveTo (contourLine ?sc contour)) = length (runs contour)"
    using lineLoop_moves[of ?sc "[]" contour] by (simp add: contourLine_def runs_def)
  have t: "filter (\<lambda>c. c = Fill) (timeAxis rt ?sc) = []"
    unfolding timeAxis_def forLoop_upt
    by (simp add: no_Fill_concat timeTick_def Let_def del: upt_Suc)
  have f: "filter (\<lambda>c. c = Fill) (freqAxis rt ?sc) = []"
    unfolding freqAxis_def forLoop_upt
    by (simp add: no_Fill_concat freqTick_def Let_def del: upt_Suc)
  show "length (filter (\<lambda>c. c = Fill) (renderContour rt contour sa cv)) = length (runs contour)"
    unfolding renderContour_voiced[OF assms]
    using fillLoop_fills[of ?sc "[]" "Some 0" contour]
    by (simp add: t f clear_cmds_def saLine_def octaveLine_def contourLine_def contourFill_def
        lineLoop_no_Fill runs_def Let_def)
qed

subsection \<open>The claims\<close>

text \<open>
  C1. For a series with a voiced frame, the pass that draws the pitch curve calls
  \<open>moveTo\<close> once for each maximal run of consecutive frames that are not unvoiced
  (frequency at most 0 or confidence below 0.2), and the renderer calls \<open>fill\<close> once for
  each run. When the first and the last timestamp differ (when they are equal no
  coordinate is finite and the canvas draws none of it), the curve is stroked once and
  its path has one sub-path for each run, through the points of the frames of the run in
  order; the shading fills one shape for each run, from the bottom of the plot up to the
  curve and back. The runs are non-empty blocks of consecutive frames of the series, none
  of them unvoiced, and together they are the frames that are not unvoiced: no sub-path
  joins two frames across an unvoiced one. In particular, when the series is a voiced
  block, then a block of frames with confidence below 0.2, then a voiced block, there are
  exactly two sub-paths and two shapes, one for each voiced block.
\<close>

theorem contour_subpaths:
  assumes "voiced_of contour \<noteq> []"
  shows "length (filter is_MoveTo (contourLine (scales_of contour cv) contour))
           = length (runs contour)
    \<and> length (filter (\<lambda>c. c = Fill) (renderContour rt contour sa cv)) = length (runs contour)
    \<and> (timestamp_ms (hd contour) \<noteq> timestamp_ms (last contour) \<longrightarrow>
         strokes_with ''#5cc8d4'' (draw st (renderContour rt contour sa cv))
           = [map (map (point_of (scales_of contour cv))) (runs contour)]
       \<and> fills_of (draw st (renderContour rt contour sa cv))
           = map (\<lambda>r. [shape_of (scales_of contour cv) r]) (runs contour))
    \<and> concat (runs contour) = filter (\<lambda>f. \<not> is_break f) contour
    \<and> (\<forall>r \<in> set (runs contour). r \<noteq> [] \<and> sublist r contour \<and> (\<forall>f \<in> set r. \<not> is_break f))
    \<and> (\<forall>a b c. contour = a @ b @ c \<and> a \<noteq> [] \<and> b \<noteq> [] \<and> c \<noteq> []
          \<and> (\<forall>f \<in> set a \<union> set c. is_voiced f) \<and> (\<forall>f \<in> set b. confidence f < 0.2)
          \<longrightarrow> runs contour = [a, c])"
proof -
  note K = contour_calls[OF assms]
  have D: "timestamp_ms (hd contour) \<noteq> timestamp_ms (last contour) \<longrightarrow>
         strokes_with ''#5cc8d4'' (draw st (renderContour rt contour sa cv))
           = [map (map (point_of (scales_of contour cv))) (runs contour)]
       \<and> fills_of (draw st (renderContour rt contour sa cv))
           = map (\<lambda>r. [shape_of (scales_of contour cv) r]) (runs contour)"
    using renderContour_draw[OF assms] by blast
  have C: "concat (runs contour) = filter (\<lambda>f. \<not> is_break f) contour"
    by (simp add: runs_def concat_runs_acc)
  have M: "\<forall>r \<in> set (runs contour). r \<noteq> [] \<and> sublist r contour \<and> (\<forall>f \<in> set r. \<not> is_break f)"
    using runs_acc_members[of _ "[]" contour] by (simp add: runs_def)
  have G: "\<forall>a b c. contour = a @ b @ c \<and> a \<noteq> [] \<and> b \<noteq> [] \<and> c \<noteq> []
          \<and> (\<forall>f \<in> set a \<union> set c. is_voiced f) \<and> (\<forall>f \<in> set b. confidence f < 0.2)
          \<longrightarrow> runs contour = [a, c]"
    using runs_gap by blast
  show ?thesis using K D C M G by blast
qed

text \<open>
  The ten frames with the third to the fifth unvoiced: a sub-path through the first two
  frames and one through the last five, which lie apart on the canvas, and two shapes.
\<close>

theorem contour_subpaths_witness:
  "length (filter is_MoveTo (contourLine (scales_of contour10 canvas0) contour10)) = 2
   \<and> length (filter (\<lambda>c. c = Fill) (renderContour rt0 contour10 261.63 canvas0)) = 2
   \<and> strokes_with ''#5cc8d4'' (draw st0 (renderContour rt0 contour10 261.63 canvas0))
     = [[map (point_of (scales_of contour10 canvas0)) (take 2 contour10),
         map (point_of (scales_of contour10 canvas0)) (drop 5 contour10)]]
   \<and> fills_of (draw st0 (renderContour rt0 contour10 261.63 canvas0))
     = [[shape_of (scales_of contour10 canvas0) (take 2 contour10)],
        [shape_of (scales_of contour10 canvas0) (drop 5 contour10)]]
   \<and> map (px (scales_of contour10 canvas0) \<circ> timestamp_ms) (take 2 contour10)
       = [55, 55 + 730 / 9]
   \<and> map (px (scales_of contour10 canvas0) \<circ> timestamp_ms) (drop 5 contour10)
       = [55 + 5 * 730 / 9, 55 + 6 * 730 / 9, 55 + 7 * 730 / 9, 55 + 8 * 730 / 9, 785]"
proof -
  have v: "voiced_of contour10 \<noteq> []"
    by (simp add: contour10_def voiced_of_def mk_def)
  have t: "timestamp_ms (hd contour10) \<noteq> timestamp_ms (last contour10)"
    by (simp add: contour10_def mk_def)
  have r: "runs contour10 = [take 2 contour10, drop 5 contour10]"
    by (simp add: contour10_def runs_def is_break_def mk_def)
  have x: "map (px (scales_of contour10 canvas0) \<circ> timestamp_ms) (take 2 contour10)
       = [55, 55 + 730 / 9]"
    "map (px (scales_of contour10 canvas0) \<circ> timestamp_ms) (drop 5 contour10)
       = [55 + 5 * 730 / 9, 55 + 6 * 730 / 9, 55 + 7 * 730 / 9, 55 + 8 * 730 / 9, 785]"
    by (simp_all add: contour10_def px_def scales_of_def canvas0_def mk_def Let_def
        padding_left_def padding_right_def)
  from contour_subpaths[OF v, where cv = canvas0 and rt = rt0 and sa = "261.63" and st = st0] t r x
  show ?thesis by simp
qed

text \<open>
  C9, as amended. In a series with a voiced frame, a frame with positive frequency and
  confidence exactly 0.2 is not among the voiced frames from which the frequency bounds
  are computed, yet neither the pass that draws the curve nor the pass that shades it
  treats it as a break: both run, the first calls \<open>moveTo\<close> or \<open>lineTo\<close> and the second
  \<open>lineTo\<close> at the place of the frame. When the first and the last timestamp differ,
  the point of the frame lies on a stroked sub-path and on a filled shape, and when the
  frame before it does not break the curve either, the points of the two are
  consecutive on one sub-path and on one shape. Its frequency can lie above the upper
  bound.
\<close>

theorem threshold_frame_plotted:
  assumes "f \<in> set contour" and "frequency_hz f > 0" and "confidence f = 0.2"
    and "voiced_of contour \<noteq> []"
  shows "f \<notin> set (voiced_of contour) \<and> \<not> is_break f
    \<and> (\<exists>before after. renderContour rt contour sa cv
          = before @ contourLine (scales_of contour cv) contour
            @ contourFill (scales_of contour cv) contour @ after)
    \<and> (MoveTo (xScale (scales_of contour cv) (timestamp_ms f))
              (yScale (scales_of contour cv) (frequency_hz f))
          \<in> set (contourLine (scales_of contour cv) contour)
        \<or> LineTo (xScale (scales_of contour cv) (timestamp_ms f))
              (yScale (scales_of contour cv) (frequency_hz f))
          \<in> set (contourLine (scales_of contour cv) contour))
    \<and> LineTo (xScale (scales_of contour cv) (timestamp_ms f))
              (yScale (scales_of contour cv) (frequency_hz f))
          \<in> set (contourFill (scales_of contour cv) contour)
    \<and> (timestamp_ms (hd contour) \<noteq> timestamp_ms (last contour) \<longrightarrow>
         (\<exists>sub \<in> set (concat (strokes_with ''#5cc8d4''
                                (draw st (renderContour rt contour sa cv)))).
            point_of (scales_of contour cv) f \<in> set sub)
       \<and> (\<exists>shape \<in> set (concat (fills_of (draw st (renderContour rt contour sa cv)))).
            point_of (scales_of contour cv) f \<in> set shape)
       \<and> (\<forall>pre g post. contour = pre @ g # f # post \<and> \<not> is_break g \<longrightarrow>
            (\<exists>sub \<in> set (concat (strokes_with ''#5cc8d4''
                                   (draw st (renderContour rt contour sa cv)))).
               sublist [point_of (scales_of contour cv) g, point_of (scales_of contour cv) f] sub)
          \<and> (\<exists>shape \<in> set (concat (fills_of (draw st (renderContour rt contour sa cv)))).
               sublist [point_of (scales_of contour cv) g, point_of (scales_of contour cv) f]
                 shape)))
    \<and> (\<exists>contour' f'. f' \<in> set contour' \<and> frequency_hz f' > 0 \<and> confidence f' = 0.2
          \<and> voiced_of contour' \<noteq> []
          \<and> fMax (scales_of contour' cv) < frequency_hz f')"
proof -
  let ?sc = "scales_of contour cv"
  let ?R = "renderContour rt contour sa cv"
  note v = assms(4)
  have nv: "f \<notin> set (voiced_of contour)" using assms(3) by (simp add: voiced_of_def)
  have nb: "\<not> is_break f" using assms(2,3) by (simp add: is_break_def)
  have W: "\<exists>before after. ?R = before @ contourLine ?sc contour @ contourFill ?sc contour @ after"
    using renderContour_voiced[OF v, of rt sa cv] by blast
  have L: "MoveTo (xScale ?sc (timestamp_ms f)) (yScale ?sc (frequency_hz f))
          \<in> set (contourLine ?sc contour)
        \<or> LineTo (xScale ?sc (timestamp_ms f)) (yScale ?sc (frequency_hz f))
          \<in> set (contourLine ?sc contour)"
    using lineLoop_call[OF assms(1) nb, of ?sc False] by (auto simp: contourLine_def)
  have F: "LineTo (xScale ?sc (timestamp_ms f)) (yScale ?sc (frequency_hz f))
          \<in> set (contourFill ?sc contour)"
    using fillLoop_call[OF assms(1) nb, of ?sc False "Some 0"] by (simp add: contourFill_def)
  have "f \<in> set (concat (runs contour))"
    using assms(1) nb by (simp add: runs_def concat_runs_acc)
  then obtain r where r: "r \<in> set (runs contour)" "f \<in> set r" by auto
  have P: "(\<exists>sub \<in> set (concat (strokes_with ''#5cc8d4'' (draw st ?R))).
            point_of ?sc f \<in> set sub)
       \<and> (\<exists>shape \<in> set (concat (fills_of (draw st ?R))). point_of ?sc f \<in> set shape)
       \<and> (\<forall>pre g post. contour = pre @ g # f # post \<and> \<not> is_break g \<longrightarrow>
            (\<exists>sub \<in> set (concat (strokes_with ''#5cc8d4'' (draw st ?R))).
               sublist [point_of ?sc g, point_of ?sc f] sub)
          \<and> (\<exists>shape \<in> set (concat (fills_of (draw st ?R))).
               sublist [point_of ?sc g, point_of ?sc f] shape))"
    if t: "timestamp_ms (hd contour) \<noteq> timestamp_ms (last contour)"
  proof -
    have S: "concat (strokes_with ''#5cc8d4'' (draw st ?R)) = map (map (point_of ?sc)) (runs contour)"
      by (simp add: renderContour_draw(1)[OF v t])
    have G: "concat (fills_of (draw st ?R)) = map (shape_of ?sc) (runs contour)"
      by (simp add: renderContour_draw(2)[OF v t] concat_singletons)
    have in_S: "map (point_of ?sc) r' \<in> set (map (map (point_of ?sc)) (runs contour))"
      and in_G: "shape_of ?sc r' \<in> set (map (shape_of ?sc) (runs contour))"
      if "r' \<in> set (runs contour)" for r'
      using that by simp_all
    have p: "point_of ?sc f \<in> set (map (point_of ?sc) r)" using r(2) by simp
    then have q: "point_of ?sc f \<in> set (shape_of ?sc r)" by (simp add: shape_of_def)
    have 1: "\<exists>sub \<in> set (concat (strokes_with ''#5cc8d4'' (draw st ?R))). point_of ?sc f \<in> set sub"
      unfolding S using in_S[OF r(1)] p by blast
    have 2: "\<exists>shape \<in> set (concat (fills_of (draw st ?R))). point_of ?sc f \<in> set shape"
      unfolding G using in_G[OF r(1)] q by blast
    have 3: "(\<exists>sub \<in> set (concat (strokes_with ''#5cc8d4'' (draw st ?R))).
               sublist [point_of ?sc g, point_of ?sc f] sub)
          \<and> (\<exists>shape \<in> set (concat (fills_of (draw st ?R))).
               sublist [point_of ?sc g, point_of ?sc f] shape)"
      if c: "contour = pre @ g # f # post" and g: "\<not> is_break g" for pre g post
    proof -
      from runs_acc_adjacent[OF g nb, of "[]" pre post] c
      obtain r' where r': "r' \<in> set (runs contour)" "sublist [g, f] r'"
        by (auto simp: runs_def)
      from sublist_mapI[OF r'(2), of "point_of ?sc"]
      have m: "sublist [point_of ?sc g, point_of ?sc f] (map (point_of ?sc) r')" by simp
      then have s: "sublist [point_of ?sc g, point_of ?sc f] (shape_of ?sc r')"
        by (rule sublist_shape)
      show ?thesis unfolding S G using in_S[OF r'(1)] in_G[OF r'(1)] m s by blast
    qed
    show ?thesis using 1 2 3 by blast
  qed
  have "mk 10 500 0.2 \<in> set contour2 \<and> frequency_hz (mk 10 500 0.2) > 0
      \<and> confidence (mk 10 500 0.2) = 0.2 \<and> voiced_of contour2 \<noteq> []
      \<and> fMax (scales_of contour2 cv) < frequency_hz (mk 10 500 0.2)"
    by (simp add: contour2_def mk_def voiced_of_def scales_of_def Let_def)
  then have E: "\<exists>contour' f'. f' \<in> set contour' \<and> frequency_hz f' > 0 \<and> confidence f' = 0.2
          \<and> voiced_of contour' \<noteq> [] \<and> fMax (scales_of contour' cv) < frequency_hz f'"
    by blast
  show ?thesis using nv nb W L F P E by blast
qed

text \<open>
  A frame at 100 Hz followed by one at 500 Hz with confidence 0.2: the bounds are 90 and
  110 Hz, the curve is one segment that ends far above the plot, and the shading is the
  shape under that segment.
\<close>

theorem threshold_frame_plotted_witness:
  "mk 10 500 0.2 \<in> set contour2 \<and> frequency_hz (mk 10 500 0.2) > 0
   \<and> confidence (mk 10 500 0.2) = 0.2 \<and> voiced_of contour2 \<noteq> []
   \<and> timestamp_ms (hd contour2) \<noteq> timestamp_ms (last contour2)
   \<and> mk 10 500 0.2 \<notin> set (voiced_of contour2) \<and> \<not> is_break (mk 10 500 0.2)
   \<and> point_of (scales_of contour2 canvas0) (mk 10 500 0.2) = (785, -4855)
   \<and> fMin (scales_of contour2 canvas0) = 90 \<and> fMax (scales_of contour2 canvas0) = 110
   \<and> LineTo (Some 785) (Some (-4855)) \<in> set (contourLine (scales_of contour2 canvas0) contour2)
   \<and> LineTo (Some 785) (Some (-4855)) \<in> set (contourFill (scales_of contour2 canvas0) contour2)
   \<and> strokes_with ''#5cc8d4'' (draw st0 (renderContour rt0 contour2 261.63 canvas0))
       = [[[(55, 145), (785, -4855)]]]
   \<and> fills_of (draw st0 (renderContour rt0 contour2 261.63 canvas0))
       = [[[(55, 270), (55, 145), (785, -4855), (785, 270)]]]"
proof -
  have m: "mk 10 500 0.2 \<in> set contour2" "frequency_hz (mk 10 500 0.2) > 0"
    "confidence (mk 10 500 0.2) = 0.2"
    by (simp_all add: contour2_def mk_def)
  have v: "voiced_of contour2 \<noteq> []"
    by (simp add: contour2_def voiced_of_def mk_def)
  have t: "timestamp_ms (hd contour2) \<noteq> timestamp_ms (last contour2)"
    by (simp add: contour2_def mk_def)
  have b: "fMin (scales_of contour2 canvas0) = 90 \<and> fMax (scales_of contour2 canvas0) = 110"
    by (simp add: contour2_def voiced_of_def mk_def scales_of_def Let_def)
  have c: "contourLine (scales_of contour2 canvas0) contour2
      = [StrokeStyle ''#5cc8d4'', LineWidth 2, LineJoin ''round'', BeginPath,
         MoveTo (Some 55) (Some 145), LineTo (Some 785) (Some (-4855)), Stroke]"
    "contourFill (scales_of contour2 canvas0) contour2
      = [FillStyle ''rgba(92, 200, 212, 0.08)'', BeginPath,
         MoveTo (Some 55) (Some 270), LineTo (Some 55) (Some 145),
         LineTo (Some 785) (Some (-4855)), LineTo (Some 785) (Some 270), Fill]"
    by (simp_all add: contourLine_def contourFill_def contour2_def mk_def xScale_def yScale_def
        js_div_def scales_of_def voiced_of_def canvas0_def Let_def padding_left_def
        padding_right_def padding_top_def padding_bottom_def)
  have s: "strokes_with ''#5cc8d4'' (draw st0 (renderContour rt0 contour2 261.63 canvas0))
       = [[[(55, 145), (785, -4855)]]]"
    "fills_of (draw st0 (renderContour rt0 contour2 261.63 canvas0))
       = [[[(55, 270), (55, 145), (785, -4855), (785, 270)]]]"
    unfolding renderContour_draw[OF v t]
    by (simp_all add: contour2_def runs_def is_break_def mk_def point_of_def shape_of_def px_def
        py_def scales_of_def voiced_of_def canvas0_def Let_def padding_left_def padding_right_def
        padding_top_def padding_bottom_def)
  have p: "point_of (scales_of contour2 canvas0) (mk 10 500 0.2) = (785, -4855)"
    by (simp add: contour2_def mk_def point_of_def px_def py_def scales_of_def voiced_of_def
        canvas0_def Let_def padding_left_def padding_right_def padding_top_def
        padding_bottom_def)
  from threshold_frame_plotted[OF m v, where st = st0 and rt = rt0 and sa = "261.63"
      and cv = canvas0] m v t b c s p
  show ?thesis by simp
qed

text \<open>
  The frame with confidence 0.2 alone: no frame is voiced, the renderer returns after
  clearing the canvas, and nothing is stroked or filled.
\<close>

theorem threshold_frame_alone_counterexample:
  "mk 0 100 0.2 \<in> set contour1 \<and> frequency_hz (mk 0 100 0.2) > 0
   \<and> confidence (mk 0 100 0.2) = 0.2
   \<and> renderContour rt0 contour1 261.63 canvas0 = clear_cmds canvas0
   \<and> draw st0 (renderContour rt0 contour1 261.63 canvas0) = []"
  by (simp add: contour1_def mk_def renderContour_def voiced_of_def clear_cmds_def)

text \<open>
  C5, as amended. For a series with a voiced frame, the frequency axis gets 5 labels:
  the whole Hz at the lower bound, the upper bound and the three values that divide the
  range into four equal parts, evenly spaced over the height of the plot. When the first
  and the last timestamp differ, the time axis gets 7 labels: the seconds with one
  decimal at the first timestamp, the last, and the five times that divide the range
  into six equal parts, evenly spaced across the width of the plot. The texts written
  are the label of the tonic line (when it is drawn), then those of the time axis, then
  those of the frequency axis.
\<close>

theorem axis_tick_labels:
  fixes contour :: "frame list" and cv :: canvas
  assumes "voiced_of contour \<noteq> []"
  defines "sc \<equiv> scales_of contour cv"
  shows "texts (freqAxis rt sc)
      = map (\<lambda>i. (toFixed rt 0 (fMin sc + (fMax sc - fMin sc) * (real i / 4)) @ '' Hz'',
                  padding_left - 6,
                  padding_top + plotH sc - (real i / 4) * plotH sc + 3)) [0..<5]
    \<and> length (texts (freqAxis rt sc)) = 5
    \<and> (timestamp_ms (hd contour) \<noteq> timestamp_ms (last contour) \<longrightarrow>
         texts (timeAxis rt sc)
           = map (\<lambda>i. (toFixed rt 1 ((tMin sc + (tMax sc - tMin sc) * (real i / 6)) / 1000)
                         @ ''s'',
                       padding_left + (real i / 6) * plotW sc,
                       H sc - 6)) [0..<7]
       \<and> length (texts (timeAxis rt sc)) = 7)
    \<and> texts (renderContour rt contour sa cv)
      = texts (saLine rt sc sa) @ texts (timeAxis rt sc) @ texts (freqAxis rt sc)"
proof -
  have f: "fMax sc \<noteq> fMin sc" unfolding sc_def by (rule fMax_neq_fMin[OF assms(1)])
  note F = freqAxis_texts[OF f, of rt]
  have FN: "length (texts (freqAxis rt sc)) = 5" unfolding F by simp
  have T: "texts (timeAxis rt sc)
           = map (\<lambda>i. (toFixed rt 1 ((tMin sc + (tMax sc - tMin sc) * (real i / 6)) / 1000)
                         @ ''s'',
                       padding_left + (real i / 6) * plotW sc,
                       H sc - 6)) [0..<7]
       \<and> length (texts (timeAxis rt sc)) = 7"
    if "timestamp_ms (hd contour) \<noteq> timestamp_ms (last contour)"
  proof -
    have d: "tMax sc \<noteq> tMin sc" using that by (simp add: sc_def tMin_tMax)
    note E = timeAxis_texts[OF d, of rt]
    have "length (texts (timeAxis rt sc)) = 7" unfolding E by simp
    with E show ?thesis by blast
  qed
  have R: "texts (renderContour rt contour sa cv)
      = texts (saLine rt sc sa) @ texts (timeAxis rt sc) @ texts (freqAxis rt sc)"
    unfolding sc_def by (rule renderContour_texts[OF assms(1)])
  show ?thesis using F FN T R by blast
qed

text \<open>The labels written for the ten frames on the canvas of 800 by 300, and their places.\<close>

theorem axis_tick_labels_witness:
  "voiced_of contour10 \<noteq> []
   \<and> timestamp_ms (hd contour10) \<noteq> timestamp_ms (last contour10)
   \<and> map snd (texts (timeAxis rt0 (scales_of contour10 canvas0)))
     = map (\<lambda>i. (55 + (real i / 6) * 730, 294)) [0..<7]
   \<and> map snd (texts (freqAxis rt0 (scales_of contour10 canvas0)))
     = map (\<lambda>i. (49, 270 - (real i / 4) * 250 + 3)) [0..<5]
   \<and> length (texts (renderContour rt0 contour10 261.63 canvas0)) = 13"
proof -
  have v: "voiced_of contour10 \<noteq> []"
    by (simp add: contour10_def voiced_of_def mk_def)
  have t: "timestamp_ms (hd contour10) \<noteq> timestamp_ms (last contour10)"
    by (simp add: contour10_def mk_def)
  have c: "plotW (scales_of contour10 canvas0) = 730" "plotH (scales_of contour10 canvas0) = 250"
    "H (scales_of contour10 canvas0) = 300"
    by (simp_all add: contour10_def scales_of_def canvas0_def mk_def Let_def
        padding_left_def padding_right_def padding_top_def padding_bottom_def)
  have s: "length (texts (saLine rt0 (scales_of contour10 canvas0) 261.63)) = 1"
    by (simp add: saLine_def yScale_def js_div_def Let_def contour10_def scales_of_def
        voiced_of_def mk_def)
  from axis_tick_labels[OF v, where rt = rt0 and sa = "261.63" and cv = canvas0] v t c s
  show ?thesis
    by (simp add: padding_left_def padding_top_def comp_def del: upt_Suc)
qed

text \<open>
  For the ten frames, 7 labels are written on the time axis, not 6, and 5 on the
  frequency axis, not 4.
\<close>

theorem axis_tick_count_counterexample:
  "length (texts (timeAxis rt0 (scales_of contour10 canvas0))) = 7
   \<and> length (texts (freqAxis rt0 (scales_of contour10 canvas0))) = 5"
proof -
  have "tMax (scales_of contour10 canvas0) \<noteq> tMin (scales_of contour10 canvas0)"
    by (simp add: contour10_def scales_of_def mk_def Let_def)
  moreover have "fMax (scales_of contour10 canvas0) \<noteq> fMin (scales_of contour10 canvas0)"
    by (rule fMax_neq_fMin) (simp add: contour10_def voiced_of_def mk_def)
  ultimately show ?thesis
    by (simp add: timeAxis_texts freqAxis_texts)
qed

end
